theory Spec2Isabelle
  imports Main "HOL-Library.Word" "HOL-Library.FSet" "HOL-Library.Signed_Division"
begin

section \<open>The agent's fabric device selection (daos\_agent/fabric.go) and its configuration\<close>

text \<open>
  Go's \<open>int\<close> is modelled by \<open>int\<close>: the integers of the program are NUMA node ids, list
  lengths and list indices, which stay far from the 64-bit bounds. Go's \<open>%\<close> truncates
  towards zero; it is \<open>smod\<close>. A Go pointer is \<open>nat option\<close>: \<open>None\<close> is nil,
  \<open>Some a\<close> the address \<open>a\<close> of a cell of the store. Logging is left out.
\<close>

subsection \<open>Errors\<close>

text \<open>
  Every error value the modelled functions build, and every run-time panic they can raise.
  \<open>OSError\<close> stands for an error handed back by the address lookup. A call ends in one
  of three ways: it returns a value with a nil error, it returns an error, or it panics. A
  function without an error result is of type \<open>panic + 'a\<close>.
\<close>

datatype panic =
    NoFabricInterfaces int
  | IndexOutOfRange
  | NilDereference

datatype error =
    ErrNilNUMAFabric
  | ErrNilFabricIfaceParams
  | ErrProviderRequired
  | FabricNotFoundErr "32 word"
  | ErrNoIPAddresses string
  | OSError nat
  | ErrInterfaceNotFound string
  | ErrNoRequestedDomain string string
  | ErrNoProviderSupport string string
  | ErrConfigNil
  | ErrInvalidSystemName string
  | ErrTelemetryRetainNeedsPort
  | ErrTelemetryEnabledNeedsPort
  | ErrBothExcludeInclude

datatype 'a result = Ok 'a | Err error | Panicked panic

subsection \<open>common.StringSet\<close>

text \<open>
  \<open>common.StringSet\<close> is a Go map from strings to empty structs: a finite set of strings,
  or nil. \<open>len\<close> of a nil map is 0 and a lookup in a nil map finds nothing.
\<close>

type_synonym StringSet = "string fset option"

definition StringSet_len :: "StringSet \<Rightarrow> int" where
  "StringSet_len s = (case s of None \<Rightarrow> 0 | Some S \<Rightarrow> int (fcard S))"

definition StringSet_Has :: "StringSet \<Rightarrow> string \<Rightarrow> bool" where
  "StringSet_Has s name = (case s of None \<Rightarrow> False | Some S \<Rightarrow> name |\<in>| S)"

subsection \<open>Config.Validate\<close>

text \<open>
  The fields of \<open>Config\<close> that \<open>Validate\<close> reads. \<open>TelemetryRetain\<close> is a
  \<open>time.Duration\<close>, a signed count of nanoseconds.
\<close>

record Config =
  SystemName :: string
  TelemetryPort :: int
  TelemetryEnabled :: bool
  TelemetryRetain :: int
  ExcludeFabricIfaces :: StringSet
  IncludeFabricIfaces :: StringSet

text \<open>
  \<open>daos.SystemNameIsValid\<close> is declared outside the files at hand; it is the parameter
  \<open>SystemNameIsValid\<close>. The receiver is a pointer, \<open>None\<close> when nil; the result is the
  returned error, \<open>None\<close> when nil.
\<close>

definition Validate :: "(string \<Rightarrow> bool) \<Rightarrow> Config option \<Rightarrow> error option" where
  "Validate SystemNameIsValid c =
     (case c of
        None \<Rightarrow> Some ErrConfigNil
      | Some c \<Rightarrow>
          if \<not> SystemNameIsValid (SystemName c) then Some (ErrInvalidSystemName (SystemName c))
          else if TelemetryRetain c > 0 \<and> TelemetryPort c = 0 then Some ErrTelemetryRetainNeedsPort
          else if TelemetryEnabled c \<and> TelemetryPort c = 0 then Some ErrTelemetryEnabledNeedsPort
          else if StringSet_len (ExcludeFabricIfaces c) > 0 \<and> StringSet_len (IncludeFabricIfaces c) > 0
            then Some ErrBothExcludeInclude
          else None)"

text \<open>A set is non-empty when it is not nil and has a member.\<close>

definition nonempty :: "StringSet \<Rightarrow> bool" where
  "nonempty s = (case s of None \<Rightarrow> False | Some S \<Rightarrow> S \<noteq> {||})"

lemma StringSet_len_pos: "(0 < StringSet_len s) = nonempty s"
  by (cases s) (auto simp: StringSet_len_def nonempty_def fcard_fempty)

subsection \<open>Fabric interfaces and the store\<close>

text \<open>
  \<open>hardware.NetDevClass\<close> is declared outside the files at hand. It holds the constant
  \<open>1 << 31\<close>, and the code only compares classes for equality; it is taken as an unsigned
  32-bit integer.
\<close>

definition FabricDevClassManual :: "32 word" where
  "FabricDevClassManual = push_bit 31 1"

text \<open>
  The field \<open>hw\<close> is a pointer to a \<open>hardware.FabricInterface\<close>, a type declared outside
  the files at hand: \<open>'hw\<close> is the type of such pointers. What the hardware package and the
  operating system answer is the environment of the program: \<open>SupportsProvider\<close> is the
  method of that name of \<open>hardware.FabricInterface\<close>, \<open>InterfaceByName\<close> is
  \<open>net.InterfaceByName\<close> seen through \<open>getAddrFI\<close>. Where a statement is about writes
  through \<open>hw\<close>, the pointers are addresses of a store of descriptors, and the environment
  is built from that store.
\<close>

record 'hw FabricInterface =
  Name :: string
  Domain :: string
  NetDevClass :: "32 word"
  hw :: 'hw

text \<open>
  An address of the standard library's \<open>net.Addr\<close> is either a \<open>*net.IPNet\<close>, of which
  the code asks whether its IP is nil and whether it is the unspecified address, or a value of
  another dynamic type. An \<open>addrFI\<close> is an interface value: nil, or an object given by what
  its method \<open>Addrs\<close> returns.
\<close>

datatype net_Addr = IPNet (IP_nil: bool) (IP_IsUnspecified: bool) | OtherAddr

type_synonym addrFI = "(error + net_Addr list) option"

record 'hw env =
  SupportsProvider :: "'hw \<Rightarrow> string \<Rightarrow> bool"
  InterfaceByName :: "string \<Rightarrow> error + addrFI"

definition HasProvider :: "'hw env \<Rightarrow> 'hw FabricInterface \<Rightarrow> string \<Rightarrow> bool" where
  "HasProvider env f provider = SupportsProvider env (hw f) provider"

text \<open>
  The store of the \<open>FabricInterface\<close> objects: the cell at address \<open>a\<close> is the
  \<open>a\<close>-th element, and \<open>new\<close> allocates the next address. Reading through nil panics.
\<close>

type_synonym 'hw store = "'hw FabricInterface list"

definition deref :: "'hw store \<Rightarrow> nat option \<Rightarrow> 'hw FabricInterface option" where
  "deref heap p =
     (case p of None \<Rightarrow> None
      | Some a \<Rightarrow> if a < length heap then Some (heap ! a) else None)"

definition copyFI :: "'hw store \<Rightarrow> nat option \<Rightarrow> (panic + nat option) \<times> 'hw store" where
  "copyFI heap fi =
     (case deref heap fi of
        None \<Rightarrow> (Inl NilDereference, heap)
      | Some v \<Rightarrow> (Inr (Some (length heap)), heap @ [v]))"

subsection \<open>The device filter\<close>

definition filterModeExclude :: int where
  "filterModeExclude = 0"

definition filterModeInclude :: int where
  "filterModeInclude = 1"

record deviceFilter =
  deviceSet :: StringSet
  mode :: int

definition ShouldIgnore :: "deviceFilter option \<Rightarrow> string \<Rightarrow> bool" where
  "ShouldIgnore df devName =
     (case df of
        None \<Rightarrow> False
      | Some f \<Rightarrow>
          if deviceSet f = None then False
          else if mode f = filterModeExclude then StringSet_Has (deviceSet f) devName
          else \<not> StringSet_Has (deviceSet f) devName)"

subsection \<open>NUMAFabric\<close>

text \<open>
  \<open>numaMap\<close> is a Go map from node ids to slices of pointers. It is the list of its
  entries, each key once; a nil map is the empty list. The order of the list is the order in
  which a \<open>range\<close> over the map visits the entries, which Go leaves open.
  \<open>currentNumaDevIdx\<close> is a map that may be nil, \<open>getAddrInterface\<close> a function value
  that may be nil. The mutex is left out: the calls are modelled one after the other.
\<close>

record NUMAFabric =
  numaMap :: "(int \<times> nat option list) list"
  currentNumaDevIdx :: "(int \<rightharpoonup> int) option"
  currentNUMANode :: int
  ifaceFilter :: "deviceFilter option"
  getAddrInterface :: "(string \<Rightarrow> error + addrFI) option"

definition getNumDevices :: "NUMAFabric \<Rightarrow> int \<Rightarrow> int" where
  "getNumDevices n numaNode =
     (case map_of (numaMap n) numaNode of Some devs \<Rightarrow> int (length devs) | None \<Rightarrow> 0)"

definition getNumNUMANodes :: "NUMAFabric \<Rightarrow> int" where
  "getNumNUMANodes n = int (length (numaMap n))"

definition getNUMANodes :: "NUMAFabric \<Rightarrow> int list" where
  "getNUMANodes n = sort (map fst (numaMap n))"

text \<open>
  \<open>getNextDevIndex\<close>: a nil cursor map is replaced by an empty one; a key that is absent
  reads as 0.
\<close>

definition getNextDevIndex :: "NUMAFabric \<Rightarrow> int \<Rightarrow> (panic + int) \<times> NUMAFabric" where
  "getNextDevIndex n numaNode =
     (let m = (case currentNumaDevIdx n of None \<Rightarrow> Map.empty | Some m \<Rightarrow> m);
          n1 = n\<lparr>currentNumaDevIdx := Some m\<rparr>;
          numDevs = getNumDevices n1 numaNode
      in if numDevs > 0 then
           let deviceIndex = (case m numaNode of None \<Rightarrow> 0 | Some i \<Rightarrow> i)
           in (Inr deviceIndex,
               n1\<lparr>currentNumaDevIdx := Some (m(numaNode \<mapsto> (deviceIndex + 1) smod numDevs))\<rparr>)
         else (Inl (NoFabricInterfaces numaNode), n1))"

text \<open>\<open>getNextDevice\<close>: indexing the slice panics when the index is out of range.\<close>

definition getNextDevice :: "NUMAFabric \<Rightarrow> int \<Rightarrow> (panic + nat option) \<times> NUMAFabric" where
  "getNextDevice n numaNode =
     (case getNextDevIndex n numaNode of
        (Inl q, n1) \<Rightarrow> (Inl q, n1)
      | (Inr idx, n1) \<Rightarrow>
          (case map_of (numaMap n1) numaNode of
             None \<Rightarrow> (Inl IndexOutOfRange, n1)
           | Some devs \<Rightarrow>
               if 0 \<le> idx \<and> idx < int (length devs) then (Inr (devs ! nat idx), n1)
               else (Inl IndexOutOfRange, n1)))"

text \<open>
  \<open>validateDevice\<close>: the loop over the addresses, then the function. A nil
  \<open>getAddrInterface\<close> is first set to \<open>getAddrFI\<close>. \<open>Ok ()\<close> is the nil error;
  calling \<open>Addrs\<close> on a nil interface value panics.
\<close>

fun validateDevice_addrs :: "string \<Rightarrow> net_Addr list \<Rightarrow> unit result" where
  "validateDevice_addrs name [] = Err (ErrNoIPAddresses name)"
| "validateDevice_addrs name (a # addrs) =
     (case a of
        IPNet ipnil unspec \<Rightarrow>
          if \<not> ipnil \<and> \<not> unspec then Ok () else validateDevice_addrs name addrs
      | OtherAddr \<Rightarrow> validateDevice_addrs name addrs)"

definition validateDevice ::
  "'hw env \<Rightarrow> NUMAFabric \<Rightarrow> 'hw FabricInterface \<Rightarrow> unit result \<times> NUMAFabric" where
  "validateDevice env n fi =
     (let f = (case getAddrInterface n of None \<Rightarrow> InterfaceByName env | Some f \<Rightarrow> f);
          n1 = n\<lparr>getAddrInterface := Some f\<rparr>
      in case f (Name fi) of
           Inl err \<Rightarrow> (Err err, n1)
         | Inr None \<Rightarrow> (Panicked NilDereference, n1)
         | Inr (Some (Inl err)) \<Rightarrow> (Err err, n1)
         | Inr (Some (Inr addrs)) \<Rightarrow> (validateDevice_addrs (Name fi) addrs, n1))"

text \<open>
  \<open>getDeviceFromNUMA\<close>: the body of its loop looks at one candidate and either goes on
  with the next one, returns the candidate, or panics.
\<close>

datatype step = Continue | Return "nat option" | Abort panic

definition getDeviceFromNUMA_body ::
  "'hw env \<Rightarrow> 'hw store \<Rightarrow> NUMAFabric \<Rightarrow> int \<Rightarrow> 32 word \<Rightarrow> string \<Rightarrow> step \<times> NUMAFabric" where
  "getDeviceFromNUMA_body env heap n numaNode netDevClass provider =
     (case getNextDevice n numaNode of
        (Inl q, n1) \<Rightarrow> (Abort q, n1)
      | (Inr fabricIF, n1) \<Rightarrow>
          (case deref heap fabricIF of
             None \<Rightarrow> (Abort NilDereference, n1)
           | Some fi \<Rightarrow>
               if ShouldIgnore (ifaceFilter n1) (Name fi) then (Continue, n1)
               else if NetDevClass fi \<noteq> FabricDevClassManual \<and> NetDevClass fi \<noteq> netDevClass
                 then (Continue, n1)
               else if NetDevClass fi \<noteq> FabricDevClassManual \<and> \<not> HasProvider env fi provider
                 then (Continue, n1)
               else
                 (case validateDevice env n1 fi of
                    (Ok u, n2) \<Rightarrow> (Return fabricIF, n2)
                  | (Err err, n2) \<Rightarrow> (Continue, n2)
                  | (Panicked q, n2) \<Rightarrow> (Abort q, n2))))"

lemma validateDevice_numaMap: "numaMap (snd (validateDevice env n fi)) = numaMap n"
  by (simp add: validateDevice_def Let_def split: sum.splits option.splits)

lemma getNextDevIndex_numaMap: "numaMap (snd (getNextDevIndex n numaNode)) = numaMap n"
  by (simp add: getNextDevIndex_def Let_def)

lemma getNextDevice_numaMap: "numaMap (snd (getNextDevice n numaNode)) = numaMap n"
  using getNextDevIndex_numaMap [of n numaNode]
  by (auto simp: getNextDevice_def split: prod.splits sum.splits option.splits)

lemma getDeviceFromNUMA_body_numaMap:
  "numaMap (snd (getDeviceFromNUMA_body env heap n numaNode c p)) = numaMap n"
  using getNextDevice_numaMap [of n numaNode]
  by (auto simp: getDeviceFromNUMA_body_def split: prod.splits sum.splits result.splits option.splits
      dest: arg_cong [where f = "\<lambda>r. numaMap (snd r)" and x = "validateDevice _ _ _"]
      simp: validateDevice_numaMap)

lemma getDeviceFromNUMA_body_getNumDevices:
  "getDeviceFromNUMA_body env heap n numaNode c p = (s, n') \<Longrightarrow>
     getNumDevices n' node = getNumDevices n node"
  using getDeviceFromNUMA_body_numaMap [of env heap n numaNode c p]
  by (simp add: getNumDevices_def)

function getDeviceFromNUMA_loop ::
  "'hw env \<Rightarrow> 'hw store \<Rightarrow> int \<Rightarrow> 32 word \<Rightarrow> string \<Rightarrow> nat \<Rightarrow> NUMAFabric
     \<Rightarrow> nat option result \<times> NUMAFabric" where
  "getDeviceFromNUMA_loop env heap numaNode netDevClass provider checked n =
     (if int checked < getNumDevices n numaNode then
        (case getDeviceFromNUMA_body env heap n numaNode netDevClass provider of
           (Continue, n') \<Rightarrow>
             getDeviceFromNUMA_loop env heap numaNode netDevClass provider (Suc checked) n'
         | (Return fabricIF, n') \<Rightarrow> (Ok fabricIF, n')
         | (Abort q, n') \<Rightarrow> (Panicked q, n'))
      else (Err (FabricNotFoundErr netDevClass), n))"
  by pat_completeness auto
termination
proof (relation "measure (\<lambda>(env, heap, numaNode, c, p, checked, n).
        nat (getNumDevices n numaNode) - checked)", goal_cases)
  case 1
  show ?case by simp
next
  case (2 env heap numaNode netDevClass provider checked n s n')
  then have "getNumDevices n' numaNode = getNumDevices n numaNode"
    using getDeviceFromNUMA_body_getNumDevices
      [of env heap n numaNode netDevClass provider s n' numaNode]
    by simp
  with 2 show ?case by simp
qed

declare getDeviceFromNUMA_loop.simps [simp del]

definition getDeviceFromNUMA ::
  "'hw env \<Rightarrow> 'hw store \<Rightarrow> NUMAFabric \<Rightarrow> int \<Rightarrow> 32 word \<Rightarrow> string
     \<Rightarrow> nat option result \<times> NUMAFabric" where
  "getDeviceFromNUMA env heap n numaNode netDevClass provider =
     getDeviceFromNUMA_loop env heap numaNode netDevClass provider 0 n"

text \<open>
  \<open>findOnAnyNUMA\<close>: \<open>nodes\<close> and \<open>numNodes\<close> are computed once, before the loop.
\<close>

function findOnAnyNUMA_loop ::
  "'hw env \<Rightarrow> 'hw store \<Rightarrow> int list \<Rightarrow> 32 word \<Rightarrow> string \<Rightarrow> nat \<Rightarrow> NUMAFabric
     \<Rightarrow> nat option result \<times> NUMAFabric" where
  "findOnAnyNUMA_loop env heap nodes netDevClass provider i n =
     (if i < length nodes then
        (let cur = (currentNUMANode n + 1) smod int (length nodes);
             n1 = n\<lparr>currentNUMANode := cur\<rparr>
         in if 0 \<le> cur \<and> cur < int (length nodes) then
              (case getDeviceFromNUMA env heap n1 (nodes ! nat cur) netDevClass provider of
                 (Ok fi, n2) \<Rightarrow> (Ok fi, n2)
               | (Err e, n2) \<Rightarrow>
                   findOnAnyNUMA_loop env heap nodes netDevClass provider (Suc i) n2
               | (Panicked q, n2) \<Rightarrow> (Panicked q, n2))
            else (Panicked IndexOutOfRange, n1))
      else (Err (FabricNotFoundErr netDevClass), n))"
  by pat_completeness auto
termination
  by (relation "measure (\<lambda>(env, heap, nodes, c, p, i, n). length nodes - i)") auto

declare findOnAnyNUMA_loop.simps [simp del]

definition findOnAnyNUMA ::
  "'hw env \<Rightarrow> 'hw store \<Rightarrow> NUMAFabric \<Rightarrow> 32 word \<Rightarrow> string
     \<Rightarrow> nat option result \<times> NUMAFabric" where
  "findOnAnyNUMA env heap n netDevClass provider =
     findOnAnyNUMA_loop env heap (getNUMANodes n) netDevClass provider 0 n"

subsection \<open>GetDevice\<close>

record FabricIfaceParams =
  Interface :: string
  ReqDomain :: string
  Provider :: string
  DevClass :: "32 word"
  NUMANode :: int

text \<open>
  The field \<open>Domain\<close> of \<open>FabricIfaceParams\<close> is named \<open>ReqDomain\<close> here, apart from the
  field \<open>Domain\<close> of \<open>FabricInterface\<close>. The receiver and the parameters are pointers,
  \<open>None\<close> when nil. The result is the returned pair (an error, or a pointer to the copy), the
  store, and the engine.
\<close>

definition GetDevice ::
  "'hw env \<Rightarrow> 'hw store \<Rightarrow> NUMAFabric option \<Rightarrow> FabricIfaceParams option
     \<Rightarrow> nat option result \<times> 'hw store \<times> NUMAFabric option" where
  "GetDevice env heap n params =
     (case n of
        None \<Rightarrow> (Err ErrNilNUMAFabric, heap, None)
      | Some n0 \<Rightarrow>
          (case params of
             None \<Rightarrow> (Err ErrNilFabricIfaceParams, heap, Some n0)
           | Some p \<Rightarrow>
               if Provider p = [] then (Err ErrProviderRequired, heap, Some n0)
               else
                 (case getDeviceFromNUMA env heap n0 (NUMANode p) (DevClass p) (Provider p) of
                    (Ok fi, n1) \<Rightarrow>
                      (case copyFI heap fi of
                         (Inr fiCopy, heap') \<Rightarrow> (Ok fiCopy, heap', Some n1)
                       | (Inl q, heap') \<Rightarrow> (Panicked q, heap', Some n1))
                  | (Panicked q, n1) \<Rightarrow> (Panicked q, heap, Some n1)
                  | (Err e, n1) \<Rightarrow>
                      (case findOnAnyNUMA env heap n1 (DevClass p) (Provider p) of
                         (Ok fi, n2) \<Rightarrow>
                           (case copyFI heap fi of
                              (Inr fiCopy, heap') \<Rightarrow> (Ok fiCopy, heap', Some n2)
                            | (Inl q, heap') \<Rightarrow> (Panicked q, heap', Some n2))
                       | (Err e2, n2) \<Rightarrow> (Err e2, heap, Some n2)
                       | (Panicked q, n2) \<Rightarrow> (Panicked q, heap, Some n2)))))"

subsection \<open>Find and FindDevice\<close>

text \<open>
  \<open>Find\<close>: the two nested loops, over the entries of the map and over the devices of an
  entry, append a copy of each device of the given name to \<open>result\<close>. The method is called
  on a pointer, \<open>None\<close> when nil.
\<close>

fun Find_devs ::
  "string \<Rightarrow> nat option list \<Rightarrow> nat option list \<Rightarrow> 'hw store
     \<Rightarrow> (panic + nat option list) \<times> 'hw store" where
  "Find_devs name [] result heap = (Inr result, heap)"
| "Find_devs name (fi # devs) result heap =
     (case deref heap fi of
        None \<Rightarrow> (Inl NilDereference, heap)
      | Some v \<Rightarrow>
          if Name v = name then
            (case copyFI heap fi of
               (Inl q, heap') \<Rightarrow> (Inl q, heap')
             | (Inr fiCopy, heap') \<Rightarrow> Find_devs name devs (result @ [fiCopy]) heap')
          else Find_devs name devs result heap)"

fun Find_nodes ::
  "string \<Rightarrow> (int \<times> nat option list) list \<Rightarrow> nat option list \<Rightarrow> 'hw store
     \<Rightarrow> (panic + nat option list) \<times> 'hw store" where
  "Find_nodes name [] result heap = (Inr result, heap)"
| "Find_nodes name ((numaNode, devs) # rest) result heap =
     (case Find_devs name devs result heap of
        (Inl q, heap') \<Rightarrow> (Inl q, heap')
      | (Inr result', heap') \<Rightarrow> Find_nodes name rest result' heap')"

definition Find ::
  "'hw store \<Rightarrow> NUMAFabric option \<Rightarrow> string \<Rightarrow> nat option list result \<times> 'hw store" where
  "Find heap n name =
     (case n of
        None \<Rightarrow> (Err ErrNilNUMAFabric, heap)
      | Some n0 \<Rightarrow>
          (case Find_nodes name (numaMap n0) [] heap of
             (Inl q, heap') \<Rightarrow> (Panicked q, heap')
           | (Inr result, heap') \<Rightarrow>
               if length result > 0 then (Ok result, heap')
               else (Err (ErrInterfaceNotFound name), heap')))"

fun filterDomain_loop ::
  "'hw store \<Rightarrow> string \<Rightarrow> nat option list \<Rightarrow> nat option list \<Rightarrow> panic + nat option list" where
  "filterDomain_loop heap domain [] result = Inr result"
| "filterDomain_loop heap domain (fi # fiList) result =
     (case deref heap fi of
        None \<Rightarrow> Inl NilDereference
      | Some v \<Rightarrow>
          if Domain v = domain \<or> (Name v = domain \<and> Domain v = [])
          then filterDomain_loop heap domain fiList (result @ [fi])
          else filterDomain_loop heap domain fiList result)"

definition filterDomain ::
  "'hw store \<Rightarrow> string \<Rightarrow> nat option list \<Rightarrow> panic + nat option list" where
  "filterDomain heap domain fiList = filterDomain_loop heap domain fiList []"

fun filterProvider_loop ::
  "'hw env \<Rightarrow> 'hw store \<Rightarrow> string \<Rightarrow> nat option list \<Rightarrow> nat option list
     \<Rightarrow> panic + nat option list" where
  "filterProvider_loop env heap provider [] result = Inr result"
| "filterProvider_loop env heap provider (fi # fiList) result =
     (case deref heap fi of
        None \<Rightarrow> Inl NilDereference
      | Some v \<Rightarrow>
          if HasProvider env v provider \<or> NetDevClass v = FabricDevClassManual
          then filterProvider_loop env heap provider fiList (result @ [fi])
          else filterProvider_loop env heap provider fiList result)"

definition filterProvider ::
  "'hw env \<Rightarrow> 'hw store \<Rightarrow> string \<Rightarrow> nat option list \<Rightarrow> panic + nat option list" where
  "filterProvider env heap provider fiList = filterProvider_loop env heap provider fiList []"

text \<open>
  \<open>FindDevice\<close>: the two optional refinements of the list that \<open>Find\<close> returns, each a
  step of its own here.
\<close>

definition FindDevice_domain ::
  "'hw store \<Rightarrow> FabricIfaceParams \<Rightarrow> nat option list \<Rightarrow> nat option list result" where
  "FindDevice_domain heap p fiList =
     (if ReqDomain p \<noteq> [] then
        (case filterDomain heap (ReqDomain p) fiList of
           Inl q \<Rightarrow> Panicked q
         | Inr fiList' \<Rightarrow>
             if length fiList' = 0
             then Err (ErrNoRequestedDomain (Interface p) (ReqDomain p))
             else Ok fiList')
      else Ok fiList)"

definition FindDevice_provider ::
  "'hw env \<Rightarrow> 'hw store \<Rightarrow> FabricIfaceParams \<Rightarrow> nat option list \<Rightarrow> nat option list result" where
  "FindDevice_provider env heap p fiList =
     (if Provider p \<noteq> [] then
        (case filterProvider env heap (Provider p) fiList of
           Inl q \<Rightarrow> Panicked q
         | Inr fiList' \<Rightarrow>
             if length fiList' = 0
             then Err (ErrNoProviderSupport (Interface p) (Provider p))
             else Ok fiList')
      else Ok fiList)"

definition FindDevice ::
  "'hw env \<Rightarrow> 'hw store \<Rightarrow> NUMAFabric option \<Rightarrow> FabricIfaceParams option
     \<Rightarrow> nat option list result \<times> 'hw store" where
  "FindDevice env heap n params =
     (case params of
        None \<Rightarrow> (Err ErrNilFabricIfaceParams, heap)
      | Some p \<Rightarrow>
          (case Find heap n (Interface p) of
             (Err e, heap') \<Rightarrow> (Err e, heap')
           | (Panicked q, heap') \<Rightarrow> (Panicked q, heap')
           | (Ok fiList, heap') \<Rightarrow>
               (case FindDevice_domain heap' p fiList of
                  Err e \<Rightarrow> (Err e, heap')
                | Panicked q \<Rightarrow> (Panicked q, heap')
                | Ok fiList1 \<Rightarrow> (FindDevice_provider env heap' p fiList1, heap'))))"

subsection \<open>Callers\<close>

text \<open>
  A caller that issues the same request \<open>k\<close> times in a row and collects what it gets, and
  a caller that assigns to the object a returned pointer leads to.
\<close>

fun GetDevice_times ::
  "'hw env \<Rightarrow> FabricIfaceParams \<Rightarrow> nat \<Rightarrow> 'hw store \<Rightarrow> NUMAFabric option
     \<Rightarrow> nat option result list \<times> 'hw store \<times> NUMAFabric option" where
  "GetDevice_times env ps 0 heap n = ([], heap, n)"
| "GetDevice_times env ps (Suc k) heap n =
     (case GetDevice env heap n (Some ps) of
        (r, heap1, n1) \<Rightarrow>
          (case GetDevice_times env ps k heap1 n1 of
             (rs, heap2, n2) \<Rightarrow> (r # rs, heap2, n2)))"

definition store_write :: "'hw store \<Rightarrow> nat option \<Rightarrow> 'hw FabricInterface \<Rightarrow> 'hw store" where
  "store_write heap p w = (case p of None \<Rightarrow> heap | Some a \<Rightarrow> heap[a := w])"

subsection \<open>The hardware descriptors\<close>

text \<open>
  The objects that the \<open>hw\<close> pointers lead to are in a store of their own, and a \<open>hw\<close>
  pointer is an address of it or nil. \<open>hardware.FabricInterface\<close> is declared outside the
  files at hand: \<open>'h\<close> is the type of its values, and its method \<open>SupportsProvider\<close>, which
  has a pointer receiver, is a parameter that is given the descriptor the receiver leads to,
  \<open>None\<close> for nil. With the descriptors of the store \<open>hws\<close>, the environment of the engine is
  \<open>hw_env supports byName hws\<close>.
\<close>

type_synonym 'h hwstore = "'h list"

definition hw_deref :: "'h hwstore \<Rightarrow> nat option \<Rightarrow> 'h option" where
  "hw_deref hws p =
     (case p of None \<Rightarrow> None
      | Some a \<Rightarrow> if a < length hws then Some (hws ! a) else None)"

definition hw_env ::
  "('h option \<Rightarrow> string \<Rightarrow> bool) \<Rightarrow> (string \<Rightarrow> error + addrFI) \<Rightarrow> 'h hwstore
     \<Rightarrow> (nat option) env" where
  "hw_env supports byName hws =
     \<lparr>SupportsProvider = (\<lambda>p provider. supports (hw_deref hws p) provider),
      InterfaceByName = byName\<rparr>"

text \<open>
  Every function of the program is in package \<open>main\<close>, so a caller that holds a pointer
  \<open>fi\<close> to a \<open>FabricInterface\<close> can assign to the descriptor behind \<open>fi.hw\<close>, as it can
  change the provider set that \<open>fi.ProviderSet()\<close> hands out. Assigning through nil panics.
\<close>

definition hw_write :: "'h hwstore \<Rightarrow> nat option \<Rightarrow> 'h \<Rightarrow> panic + 'h hwstore" where
  "hw_write hws p h =
     (case p of None \<Rightarrow> Inl NilDereference
      | Some a \<Rightarrow> if a < length hws then Inr (hws[a := h]) else Inl NilDereference)"

definition write_through_hw ::
  "(nat option) store \<Rightarrow> 'h hwstore \<Rightarrow> nat option \<Rightarrow> 'h \<Rightarrow> panic + 'h hwstore" where
  "write_through_hw heap hws fi h =
     (case deref heap fi of None \<Rightarrow> Inl NilDereference | Some v \<Rightarrow> hw_write hws (hw v) h)"

subsection \<open>Vocabulary of the statements\<close>

text \<open>
  \<open>cursor\<close> is the value that \<open>n.currentNumaDevIdx[numaNode]\<close> reads, \<open>validator\<close> the
  function that \<open>validateDevice\<close> calls. A device is \<open>live\<close> when the validator reports an
  IP address that is assigned and not the unspecified one, and \<open>eligible\<close> for a request when
  it passes the filter, is manual or matches class and provider, and is live. \<open>kept\<close> relates
  two engines with the same inventory, the same filter and the same validator.
\<close>

definition cursor :: "NUMAFabric \<Rightarrow> int \<Rightarrow> int" where
  "cursor n numaNode =
     (case currentNumaDevIdx n of None \<Rightarrow> 0
      | Some m \<Rightarrow> (case m numaNode of None \<Rightarrow> 0 | Some i \<Rightarrow> i))"

definition validator :: "'hw env \<Rightarrow> NUMAFabric \<Rightarrow> string \<Rightarrow> error + addrFI" where
  "validator env n = (case getAddrInterface n of None \<Rightarrow> InterfaceByName env | Some f \<Rightarrow> f)"

definition live :: "'hw env \<Rightarrow> NUMAFabric \<Rightarrow> string \<Rightarrow> bool" where
  "live env n name =
     (case validator env n name of
        Inr (Some (Inr addrs)) \<Rightarrow> IPNet False False \<in> set addrs
      | _ \<Rightarrow> False)"

definition eligible :: "'hw env \<Rightarrow> NUMAFabric \<Rightarrow> 32 word \<Rightarrow> string \<Rightarrow> 'hw FabricInterface \<Rightarrow> bool" where
  "eligible env n netDevClass provider v =
     (\<not> ShouldIgnore (ifaceFilter n) (Name v) \<and>
      (NetDevClass v = FabricDevClassManual \<or>
       (NetDevClass v = netDevClass \<and> HasProvider env v provider)) \<and>
      live env n (Name v))"

definition kept :: "'hw env \<Rightarrow> NUMAFabric \<Rightarrow> NUMAFabric \<Rightarrow> bool" where
  "kept env n n' =
     (numaMap n' = numaMap n \<and> ifaceFilter n' = ifaceFilter n \<and>
      validator env n' = validator env n \<and>
      (getAddrInterface n \<noteq> None \<longrightarrow> getAddrInterface n' = getAddrInterface n))"

definition eligible_at ::
  "'hw env \<Rightarrow> 'hw store \<Rightarrow> NUMAFabric \<Rightarrow> 32 word \<Rightarrow> string \<Rightarrow> nat option \<Rightarrow> bool" where
  "eligible_at env heap n netDevClass provider p =
     (case deref heap p of None \<Rightarrow> False | Some v \<Rightarrow> eligible env n netDevClass provider v)"

definition cand :: "nat option list \<Rightarrow> int \<Rightarrow> nat \<Rightarrow> nat option" where
  "cand devs c i = devs ! nat ((c + int i) mod int (length devs))"

definition has_eligible ::
  "'hw env \<Rightarrow> 'hw store \<Rightarrow> NUMAFabric \<Rightarrow> 32 word \<Rightarrow> string \<Rightarrow> int \<Rightarrow> bool" where
  "has_eligible env heap n netDevClass provider numaNode =
     (case map_of (numaMap n) numaNode of
        None \<Rightarrow> False
      | Some devs \<Rightarrow> \<exists>p\<in>set devs. eligible_at env heap n netDevClass provider p)"

definition ncand :: "int list \<Rightarrow> int \<Rightarrow> nat \<Rightarrow> int" where
  "ncand nodes c j = nodes ! nat ((c + 1 + int j) mod int (length nodes))"

definition valid_dev :: "'hw env \<Rightarrow> 'hw store \<Rightarrow> NUMAFabric \<Rightarrow> nat option \<Rightarrow> bool" where
  "valid_dev env heap n p =
     (case deref heap p of None \<Rightarrow> False | Some v \<Rightarrow> validator env n (Name v) \<noteq> Inr None)"

definition node_ok :: "'hw env \<Rightarrow> 'hw store \<Rightarrow> NUMAFabric \<Rightarrow> int \<Rightarrow> nat option list \<Rightarrow> bool" where
  "node_ok env heap n numaNode devs =
     ((devs = [] \<or> (0 \<le> cursor n numaNode \<and> cursor n numaNode < int (length devs))) \<and>
      list_all (valid_dev env heap n) devs)"

definition cross_cursor_ok :: "NUMAFabric \<Rightarrow> bool" where
  "cross_cursor_ok n =
     (0 \<le> currentNUMANode n \<and>
      (currentNUMANode n < int (length (numaMap n)) \<or> numaMap n = []))"

definition well_formed :: "'hw env \<Rightarrow> 'hw store \<Rightarrow> NUMAFabric \<Rightarrow> bool" where
  "well_formed env heap n =
     (distinct (map fst (numaMap n)) \<and>
      list_all (\<lambda>(numaNode, devs). node_ok env heap n numaNode devs) (numaMap n) \<and>
      cross_cursor_ok n)"

definition candidates :: "NUMAFabric \<Rightarrow> int \<Rightarrow> nat option list" where
  "candidates n numaNode =
     (case map_of (numaMap n) numaNode of
        None \<Rightarrow> []
      | Some devs \<Rightarrow> rotate (nat (cursor n numaNode)) devs)"

definition first_eligible ::
  "'hw env \<Rightarrow> 'hw store \<Rightarrow> NUMAFabric \<Rightarrow> 32 word \<Rightarrow> string \<Rightarrow> int \<Rightarrow> nat option option" where
  "first_eligible env heap n netDevClass provider numaNode =
     find (eligible_at env heap n netDevClass provider) (candidates n numaNode)"

definition fallback_order :: "NUMAFabric \<Rightarrow> int list" where
  "fallback_order n =
     rotate (nat ((currentNUMANode n + 1) mod int (length (getNUMANodes n)))) (getNUMANodes n)"

text \<open>
  The pointers \<open>GetDevice\<close> examines, in the order in which it does: the candidates of the
  requested node, then those of every node in the order of the fallback.
\<close>

definition scan_order :: "NUMAFabric \<Rightarrow> int \<Rightarrow> nat option list" where
  "scan_order n numaNode = candidates n numaNode @ concat (map (candidates n) (fallback_order n))"

text \<open>
  \<open>newNUMAFabric\<close> builds an engine with an empty inventory and an empty cursor map; the
  other fields have their zero values.
\<close>

definition newNUMAFabric :: NUMAFabric where
  "newNUMAFabric =
     \<lparr>numaMap = [], currentNumaDevIdx = Some Map.empty, currentNUMANode = 0,
      ifaceFilter = None, getAddrInterface = None\<rparr>"

subsection \<open>Example inventories\<close>

text \<open>
  An environment in which a hardware descriptor is the list of its providers, the interface
  \<open>down0\<close> has no address, the lookup of \<open>gone0\<close> fails and every other interface has
  one usable address; devices by name, class and providers; an engine over a given inventory.
\<close>

definition ex_env :: "string list env" where
  "ex_env =
     \<lparr>SupportsProvider = (\<lambda>hw provider. provider \<in> set hw),
      InterfaceByName = (\<lambda>name.
         if name = ''down0'' then Inr (Some (Inr [IPNet False True, OtherAddr]))
         else if name = ''gone0'' then Inl (OSError 19)
         else Inr (Some (Inr [IPNet False False])))\<rparr>"

definition ex_dev :: "string \<Rightarrow> 32 word \<Rightarrow> string list \<Rightarrow> string list FabricInterface" where
  "ex_dev name c provs = \<lparr>Name = name, Domain = name, NetDevClass = c, hw = provs\<rparr>"

definition ex_fabric :: "(int \<times> nat option list) list \<Rightarrow> NUMAFabric" where
  "ex_fabric m = newNUMAFabric\<lparr>numaMap := m\<rparr>"

definition ex_params :: "int \<Rightarrow> 32 word \<Rightarrow> string \<Rightarrow> FabricIfaceParams" where
  "ex_params numaNode c provider =
     \<lparr>Interface = [], ReqDomain = [], Provider = provider, DevClass = c, NUMANode = numaNode\<rparr>"

lemmas ex_defs = ex_env_def ex_dev_def ex_fabric_def ex_params_def newNUMAFabric_def

lemmas eval_defs = GetDevice_def getDeviceFromNUMA_def getDeviceFromNUMA_loop.simps
  getNumDevices_def getDeviceFromNUMA_body_def getNextDevice_def getNextDevIndex_def deref_def
  ShouldIgnore_def HasProvider_def validateDevice_def copyFI_def FabricDevClassManual_def
  findOnAnyNUMA_def findOnAnyNUMA_loop.simps getNUMANodes_def StringSet_Has_def
  filterModeExclude_def Let_def smod_int_alt_def

definition ex_heap10 :: "string list FabricInterface list" where
  "ex_heap10 = [ex_dev ''A'' 1 [''P''], ex_dev ''B'' 1 [''P''], ex_dev ''C'' 1 [''P'']]"

definition ex_fabric10 :: NUMAFabric where
  "ex_fabric10 = (ex_fabric [(0, [Some 0, Some 1]), (1, [Some 2])])
      \<lparr>currentNumaDevIdx := Some [0 \<mapsto> 1], currentNUMANode := 1\<rparr>"

lemmas spec_defs = well_formed_def node_ok_def valid_dev_def cross_cursor_ok_def validator_def
  cursor_def live_def eligible_def eligible_at_def has_eligible_def first_eligible_def
  candidates_def fallback_order_def kept_def
  deref_def ShouldIgnore_def HasProvider_def FabricDevClassManual_def StringSet_Has_def
  filterModeExclude_def getNUMANodes_def

definition ex_heap3 :: "string list FabricInterface list" where
  "ex_heap3 = [ex_dev ''down0'' 1 [''P''], ex_dev ''eth1'' 1 [''P'']]"

definition ex_heap5 :: "string list FabricInterface list" where
  "ex_heap5 = [ex_dev ''ib0'' FabricDevClassManual []]"

definition ex_heapY :: "string list FabricInterface list" where
  "ex_heapY = [ex_dev ''eth0'' 1 [''P''], ex_dev ''ib1'' 2 [''P''], ex_dev ''ib2'' 2 [''P'']]"

definition ex_fabricY :: NUMAFabric where
  "ex_fabricY = ex_fabric [(0, [Some 0]), (1, [Some 1]), (2, [Some 2])]"

definition ex_fabricN :: NUMAFabric where
  "ex_fabricN = ex_fabric [(1, [Some 1]), (2, [Some 2])]"

definition ex_heapABC :: "string list FabricInterface list" where
  "ex_heapABC = [ex_dev ''A'' 1 [''P''], ex_dev ''B'' 1 [''P''], ex_dev ''C'' 1 [''P'']]"

text \<open>
  The pointers of the inventory, in the order in which \<open>Find\<close> visits them, and the objects
  a list of pointers leads to.
\<close>

definition inventory :: "NUMAFabric \<Rightarrow> nat option list" where
  "inventory n = concat (map snd (numaMap n))"

definition vals :: "'hw store \<Rightarrow> nat option list \<Rightarrow> 'hw FabricInterface list" where
  "vals heap ptrs = map (\<lambda>p. the (deref heap p)) ptrs"

definition ex_heapF :: "string list FabricInterface list" where
  "ex_heapF =
     [\<lparr>Name = ''ib0'', Domain = ''ib0'', NetDevClass = 1, hw = [''verbs'']\<rparr>,
      \<lparr>Name = ''ib0'', Domain = ''ib0d1'', NetDevClass = 1, hw = [''tcp'']\<rparr>]"

definition ex_find :: "string \<Rightarrow> string \<Rightarrow> string \<Rightarrow> FabricIfaceParams" where
  "ex_find name domain provider =
     \<lparr>Interface = name, ReqDomain = domain, Provider = provider, DevClass = 0, NUMANode = 0\<rparr>"

lemmas find_defs = FindDevice_def Find_def FindDevice_domain_def FindDevice_provider_def
  filterDomain_def filterProvider_def inventory_def vals_def ex_heapF_def ex_find_def copyFI_def

definition ex_heapM :: "string list FabricInterface list" where
  "ex_heapM = [ex_dev ''eth0'' 1 [''P''], ex_dev ''ib0'' FabricDevClassManual []]"

text \<open>
  An inventory of two devices with a hardware descriptor each; a descriptor is the list of
  its providers.
\<close>

definition ex_supports :: "string list option \<Rightarrow> string \<Rightarrow> bool" where
  "ex_supports h provider = (case h of None \<Rightarrow> False | Some provs \<Rightarrow> provider \<in> set provs)"

definition ex_hw_env :: "string list hwstore \<Rightarrow> (nat option) env" where
  "ex_hw_env hws = hw_env ex_supports (InterfaceByName ex_env) hws"

definition ex_hws :: "string list hwstore" where
  "ex_hws = [[''P''], [''P'', ''Q'']]"

definition ex_devH :: "string \<Rightarrow> 32 word \<Rightarrow> nat option \<Rightarrow> (nat option) FabricInterface" where
  "ex_devH name c p = \<lparr>Name = name, Domain = name, NetDevClass = c, hw = p\<rparr>"

definition ex_heapH :: "(nat option) FabricInterface list" where
  "ex_heapH = [ex_devH ''A'' 1 (Some 0), ex_devH ''B'' 1 (Some 1)]"

definition ex_fabricH :: NUMAFabric where
  "ex_fabricH = ex_fabric [(0, [Some 0, Some 1])]"

lemmas hw_defs = hw_deref_def hw_env_def hw_write_def write_through_hw_def ex_supports_def
  ex_hw_env_def ex_hws_def ex_devH_def ex_heapH_def ex_fabricH_def

section \<open>Theorems\<close>

lemma kept_refl: "kept env n n" by (simp add: kept_def)

lemma kept_trans: "kept env a b \<Longrightarrow> kept env b c \<Longrightarrow> kept env a c"
  by (auto simp: kept_def)

lemma smod_nonneg: "0 \<le> a \<Longrightarrow> 0 < b \<Longrightarrow> (a::int) smod b = a mod b"
  by (cases "a = 0") (simp_all add: smod_int_alt_def)

lemma validateDevice_addrs_Ok:
  "(validateDevice_addrs name addrs = Ok ()) = (IPNet False False \<in> set addrs)"
  by (induction addrs) (auto split: net_Addr.splits)

lemma validateDevice_addrs_no_panic: "validateDevice_addrs name addrs \<noteq> Panicked q"
  by (induction addrs) (auto split: net_Addr.splits)

lemma getNextDevIndex_cases:
  assumes "getNextDevIndex n node = (r, n')"
  shows "numaMap n' = numaMap n \<and> ifaceFilter n' = ifaceFilter n \<and>
      getAddrInterface n' = getAddrInterface n" "currentNUMANode n' = currentNUMANode n"
    "x \<noteq> node \<Longrightarrow> cursor n' x = cursor n x"
    "0 < getNumDevices n node \<Longrightarrow> r = Inr (cursor n node) \<and>
        cursor n' node = (cursor n node + 1) smod getNumDevices n node"
    "\<not> 0 < getNumDevices n node \<Longrightarrow> r = Inl (NoFabricInterfaces node) \<and> cursor n' node = cursor n node"
  using assms
  by (auto simp: getNextDevIndex_def Let_def kept_def validator_def cursor_def getNumDevices_def
      split: option.splits if_splits)

lemma validateDevice_cases:
  assumes "validateDevice env n v = (r, n')"
  shows "kept env n n'" "currentNUMANode n' = currentNUMANode n"
    "cursor n' x = cursor n x"
    "(r = Ok ()) = live env n (Name v)"
    "(\<exists>q. r = Panicked q) = (validator env n (Name v) = Inr None)"
    "r = Panicked q \<Longrightarrow> q = NilDereference"
  using assms
  by (auto simp: validateDevice_def Let_def kept_def validator_def cursor_def live_def
      validateDevice_addrs_Ok validateDevice_addrs_no_panic
      split: option.splits sum.splits if_splits)

lemma getNextDevice_cases:
  assumes "getNextDevice n node = (r, n')"
  shows "numaMap n' = numaMap n \<and> ifaceFilter n' = ifaceFilter n \<and>
      getAddrInterface n' = getAddrInterface n" "currentNUMANode n' = currentNUMANode n"
    "x \<noteq> node \<Longrightarrow> cursor n' x = cursor n x"
    "r = Inr p \<Longrightarrow> \<exists>devs. map_of (numaMap n) node = Some devs \<and> 0 \<le> cursor n node \<and>
        cursor n node < int (length devs) \<and> p = devs ! nat (cursor n node) \<and>
        cursor n' node = (cursor n node + 1) mod int (length devs)"
    "r \<noteq> Inl (NoFabricInterfaces y) \<or> getNumDevices n node = 0"
proof -
  obtain r0 n0 where g: "getNextDevIndex n node = (r0, n0)" by (cases "getNextDevIndex n node")
  note c = getNextDevIndex_cases [OF g]
  have n': "n' = n0" using assms g
    by (auto simp: getNextDevice_def split: sum.splits option.splits if_splits)
  show "numaMap n' = numaMap n \<and> ifaceFilter n' = ifaceFilter n \<and>
      getAddrInterface n' = getAddrInterface n" "currentNUMANode n' = currentNUMANode n"
    using c n' by simp_all
  show "x \<noteq> node \<Longrightarrow> cursor n' x = cursor n x" using c n' by simp
  have nm: "numaMap n0 = numaMap n" using c(1) by simp
  show "r = Inr p \<Longrightarrow> \<exists>devs. map_of (numaMap n) node = Some devs \<and> 0 \<le> cursor n node \<and>
        cursor n node < int (length devs) \<and> p = devs ! nat (cursor n node) \<and>
        cursor n' node = (cursor n node + 1) mod int (length devs)"
    using assms g c(4,5) n' nm
    by (cases "0 < getNumDevices n node")
       (auto simp: getNextDevice_def getNumDevices_def smod_nonneg
          split: sum.splits option.splits if_splits)
  show "r \<noteq> Inl (NoFabricInterfaces y) \<or> getNumDevices n node = 0"
    using assms g c(4,5) n' nm
    by (cases "0 < getNumDevices n node")
       (auto simp: getNextDevice_def getNumDevices_def
          split: sum.splits option.splits if_splits)
qed

lemma body_cases:
  assumes "getDeviceFromNUMA_body env heap n node cls prov = (s, n')"
  shows "kept env n n'" "currentNUMANode n' = currentNUMANode n"
    "x \<noteq> node \<Longrightarrow> cursor n' x = cursor n x"
    "s \<noteq> Abort (NoFabricInterfaces y) \<or> getNumDevices n node = 0"
    "(\<forall>q. s \<noteq> Abort q) \<Longrightarrow> \<exists>devs. map_of (numaMap n) node = Some devs \<and> 0 \<le> cursor n node \<and>
        cursor n node < int (length devs) \<and>
        cursor n' node = (cursor n node + 1) mod int (length devs) \<and>
        deref heap (devs ! nat (cursor n node)) \<noteq> None \<and>
        s = (if eligible_at env heap n cls prov (devs ! nat (cursor n node))
             then Return (devs ! nat (cursor n node)) else Continue)"
proof -
  obtain r0 n0 where g: "getNextDevice n node = (r0, n0)" by (cases "getNextDevice n node")
  note c = getNextDevice_cases [OF g]
  have k0: "kept env n n0" using c(1) by (simp add: kept_def validator_def)
  have "n' = n0 \<or> (\<exists>v r1. validateDevice env n0 v = (r1, n'))"
    using assms g
    by (auto simp: getDeviceFromNUMA_body_def
        split: sum.splits option.splits if_splits prod.splits result.splits)
  then have mid: "kept env n0 n' \<and> currentNUMANode n' = currentNUMANode n0 \<and>
      (\<forall>x. cursor n' x = cursor n0 x)"
    using validateDevice_cases(1,2,3) by (auto simp: kept_refl)
  show "s \<noteq> Abort (NoFabricInterfaces y) \<or> getNumDevices n node = 0"
    using assms g c(5) [of y]
    by (auto simp: getDeviceFromNUMA_body_def split: sum.splits option.splits if_splits prod.splits result.splits
         dest: validateDevice_cases(6))
  show "kept env n n'" using k0 mid by (auto intro: kept_trans)
  show "currentNUMANode n' = currentNUMANode n" using c(2) mid by simp
  show "x \<noteq> node \<Longrightarrow> cursor n' x = cursor n x" using c(3) mid by simp
  show "\<exists>devs. map_of (numaMap n) node = Some devs \<and> 0 \<le> cursor n node \<and>
        cursor n node < int (length devs) \<and>
        cursor n' node = (cursor n node + 1) mod int (length devs) \<and>
        deref heap (devs ! nat (cursor n node)) \<noteq> None \<and>
        s = (if eligible_at env heap n cls prov (devs ! nat (cursor n node))
             then Return (devs ! nat (cursor n node)) else Continue)" if na: "\<forall>q. s \<noteq> Abort q"
  proof -
    from assms g na obtain p where r0: "r0 = Inr p"
      by (cases r0) (auto simp: getDeviceFromNUMA_body_def)
    from c(4) [OF r0] obtain devs where d: "map_of (numaMap n) node = Some devs"
      "0 \<le> cursor n node" "cursor n node < int (length devs)" "p = devs ! nat (cursor n node)"
      "cursor n0 node = (cursor n node + 1) mod int (length devs)" by blast
    from assms g na r0 obtain v where v: "deref heap p = Some v"
      by (cases "deref heap p") (auto simp: getDeviceFromNUMA_body_def)
    have el: "eligible env n0 cls prov v = eligible env n cls prov v"
      using k0 by (simp add: eligible_def kept_def live_def)
    obtain r1 n1 where vd: "validateDevice env n0 v = (r1, n1)" by (cases "validateDevice env n0 v")
    note vc = validateDevice_cases [OF vd]
    have "cursor n' node = cursor n0 node \<and>
          s = (if eligible env n0 cls prov v then Return p else Continue)"
      using assms g na r0 v vd vc(3) [of node] vc(4)
      by (cases r1) (auto simp: getDeviceFromNUMA_body_def eligible_def split: if_splits)
    with d v el show ?thesis by (auto simp: eligible_at_def)
  qed
qed

lemma cand_shift: "cand devs ((c + 1) mod int (length devs)) i = cand devs c (Suc i)"
proof -
  have "((c + 1) mod int (length devs) + int i) mod int (length devs) =
        (c + 1 + int i) mod int (length devs)"
    by (rule mod_add_left_eq)
  then show ?thesis by (simp add: cand_def ac_simps)
qed

lemma cand_0: "0 \<le> c \<Longrightarrow> c < int (length devs) \<Longrightarrow> cand devs c 0 = devs ! nat c"
  by (simp add: cand_def)

lemma eligible_at_kept:
  "kept env n n' \<Longrightarrow> eligible_at env heap n' cls prov p = eligible_at env heap n cls prov p"
  by (cases "deref heap p") (simp_all add: eligible_at_def eligible_def kept_def live_def)

lemma loop_frame:
  "getDeviceFromNUMA_loop env heap node cls prov checked n = (r, n') \<Longrightarrow>
     kept env n n' \<and> currentNUMANode n' = currentNUMANode n \<and>
     (\<forall>x. x \<noteq> node \<longrightarrow> cursor n' x = cursor n x) \<and>
     (\<forall>y. r \<noteq> Panicked (NoFabricInterfaces y)) \<and>
     (\<forall>e. r = Err e \<longrightarrow> e = FabricNotFoundErr cls)"
proof (induction env heap node cls prov checked n arbitrary: r n'
    rule: getDeviceFromNUMA_loop.induct)
  case (1 env heap node cls prov checked n)
  show ?case
  proof (cases "int checked < getNumDevices n node")
    case False
    with "1.prems" show ?thesis
      by (auto simp: getDeviceFromNUMA_loop.simps kept_refl)
  next
    case True
    obtain s n1 where b: "getDeviceFromNUMA_body env heap n node cls prov = (s, n1)"
      by (cases "getDeviceFromNUMA_body env heap n node cls prov")
    note bc = body_cases [OF b]
    show ?thesis
    proof (cases s)
      case Continue
      with True b "1.prems"
      have l: "getDeviceFromNUMA_loop env heap node cls prov (Suc checked) n1 = (r, n')"
        by (simp add: getDeviceFromNUMA_loop.simps [of env heap node cls prov checked n])
      from "1.IH" [OF True b [symmetric] Continue l] bc(1,2,3)
      show ?thesis by (auto intro: kept_trans)
    next
      case (Return p)
      with True b "1.prems" have "r = Ok p" "n' = n1"
        by (simp_all add: getDeviceFromNUMA_loop.simps [of env heap node cls prov checked n])
      with bc(1,2,3) show ?thesis by auto
    next
      case (Abort q)
      with True b "1.prems" have "r = Panicked q" "n' = n1"
        by (simp_all add: getDeviceFromNUMA_loop.simps [of env heap node cls prov checked n])
      with bc(1,2,3) bc(4) Abort True show ?thesis by auto
    qed
  qed
qed

lemma getNumDevices_Some: "map_of (numaMap n) node = Some devs \<Longrightarrow> getNumDevices n node = int (length devs)"
  by (simp add: getNumDevices_def)

lemma loop_done:
  "\<not> int checked < getNumDevices n node \<Longrightarrow>
     getDeviceFromNUMA_loop env heap node cls prov checked n = (Err (FabricNotFoundErr cls), n)"
  by (simp add: getDeviceFromNUMA_loop.simps)

lemma loop_step:
  "int checked < getNumDevices n node \<Longrightarrow>
   getDeviceFromNUMA_body env heap n node cls prov = (s, n1) \<Longrightarrow>
     getDeviceFromNUMA_loop env heap node cls prov checked n =
       (case s of Continue \<Rightarrow> getDeviceFromNUMA_loop env heap node cls prov (Suc checked) n1
        | Return p \<Rightarrow> (Ok p, n1) | Abort q \<Rightarrow> (Panicked q, n1))"
  by (simp add: getDeviceFromNUMA_loop.simps [of env heap node cls prov checked n])

lemma loop_Err:
  "getDeviceFromNUMA_loop env heap node cls prov checked n = (Err e, n') \<Longrightarrow>
   int checked < getNumDevices n node \<Longrightarrow>
     \<exists>devs. map_of (numaMap n) node = Some devs \<and> 0 \<le> cursor n node \<and>
       cursor n node < int (length devs) \<and>
       cursor n' node = (cursor n node + (int (length devs) - int checked)) mod int (length devs) \<and>
       (\<forall>i. checked + i < length devs \<longrightarrow>
          \<not> eligible_at env heap n cls prov (cand devs (cursor n node) i))"
proof (induction env heap node cls prov checked n arbitrary: n'
    rule: getDeviceFromNUMA_loop.induct)
  case (1 env heap node cls prov checked n)
  note lt = "1.prems"(2)
  obtain s n1 where b: "getDeviceFromNUMA_body env heap n node cls prov = (s, n1)"
    by (cases "getDeviceFromNUMA_body env heap n node cls prov")
  note bc = body_cases [OF b]
  from "1.prems"(1) loop_step [OF lt b] have s: "s = Continue"
    by (cases s) auto
  with "1.prems"(1) loop_step [OF lt b]
  have l: "getDeviceFromNUMA_loop env heap node cls prov (Suc checked) n1 = (Err e, n')"
    by simp
  from bc(5) s obtain devs where d: "map_of (numaMap n) node = Some devs"
    "0 \<le> cursor n node" "cursor n node < int (length devs)"
    "cursor n1 node = (cursor n node + 1) mod int (length devs)"
    "\<not> eligible_at env heap n cls prov (devs ! nat (cursor n node))"
    by (auto split: if_splits)
  have nm: "numaMap n1 = numaMap n" using bc(1) by (simp add: kept_def)
  have k: "getNumDevices n node = int (length devs)" "getNumDevices n1 node = int (length devs)"
    using d(1) nm by (simp_all add: getNumDevices_def)
  have c0: "\<not> eligible_at env heap n cls prov (cand devs (cursor n node) 0)"
    using d by (simp add: cand_0)
  show ?case
  proof (cases "int (Suc checked) < getNumDevices n1 node")
    case False
    with l loop_done [OF False, of env heap cls prov] have n': "n' = n1" by simp
    from False lt k have ck: "length devs = Suc checked" by simp
    have "cursor n' node = (cursor n node + (int (length devs) - int checked)) mod int (length devs)"
      using n' d(4) ck by simp
    moreover have "\<forall>i. checked + i < length devs \<longrightarrow>
          \<not> eligible_at env heap n cls prov (cand devs (cursor n node) i)"
      using ck c0 by auto
    ultimately show ?thesis using d by blast
  next
    case True
    from "1.IH" [OF lt b [symmetric] s l True] nm d(1)
    have ih: "cursor n' node =
         (cursor n1 node + (int (length devs) - int (Suc checked))) mod int (length devs)"
      "\<forall>i. Suc checked + i < length devs \<longrightarrow>
          \<not> eligible_at env heap n1 cls prov (cand devs (cursor n1 node) i)"
      by auto
    have "(cursor n1 node + (int (length devs) - int (Suc checked))) mod int (length devs) =
          (cursor n node + 1 + (int (length devs) - int (Suc checked))) mod int (length devs)"
      unfolding d(4) by (rule mod_add_left_eq)
    with ih(1) have c': "cursor n' node =
        (cursor n node + (int (length devs) - int checked)) mod int (length devs)"
      by (simp add: algebra_simps)
    have "\<not> eligible_at env heap n cls prov (cand devs (cursor n node) i)"
      if "checked + i < length devs" for i
    proof (cases i)
      case 0
      with c0 show ?thesis by simp
    next
      case (Suc i')
      with that ih(2) have "\<not> eligible_at env heap n1 cls prov (cand devs (cursor n1 node) i')"
        by simp
      then show ?thesis
        unfolding d(4) cand_shift Suc eligible_at_kept [OF bc(1)] .
    qed
    with c' d show ?thesis by blast
  qed
qed

lemma loop_Ok:
  "getDeviceFromNUMA_loop env heap node cls prov checked n = (Ok p, n') \<Longrightarrow>
     \<exists>devs j. map_of (numaMap n) node = Some devs \<and> 0 \<le> cursor n node \<and>
       cursor n node < int (length devs) \<and> checked + j < length devs \<and>
       p = cand devs (cursor n node) j \<and> eligible_at env heap n cls prov p \<and>
       (\<forall>i<j. \<not> eligible_at env heap n cls prov (cand devs (cursor n node) i)) \<and>
       cursor n' node = (cursor n node + int j + 1) mod int (length devs)"
proof (induction env heap node cls prov checked n arbitrary: n'
    rule: getDeviceFromNUMA_loop.induct)
  case (1 env heap node cls prov checked n)
  have lt: "int checked < getNumDevices n node"
    using "1.prems" loop_done [of checked n node env heap cls prov] by (cases "int checked < getNumDevices n node") auto
  obtain s n1 where b: "getDeviceFromNUMA_body env heap n node cls prov = (s, n1)"
    by (cases "getDeviceFromNUMA_body env heap n node cls prov")
  note bc = body_cases [OF b]
  from "1.prems"(1) loop_step [OF lt b] have na: "\<forall>q. s \<noteq> Abort q"
    by (cases s) auto
  from bc(5) [OF na] obtain devs where d: "map_of (numaMap n) node = Some devs"
    "0 \<le> cursor n node" "cursor n node < int (length devs)"
    "cursor n1 node = (cursor n node + 1) mod int (length devs)"
    "s = (if eligible_at env heap n cls prov (devs ! nat (cursor n node))
             then Return (devs ! nat (cursor n node)) else Continue)"
    by auto
  have nm: "numaMap n1 = numaMap n" using bc(1) by (simp add: kept_def)
  have k: "getNumDevices n node = int (length devs)"
    using d(1) by (simp add: getNumDevices_def)
  show ?case
  proof (cases "eligible_at env heap n cls prov (devs ! nat (cursor n node))")
    case True
    with d(5) "1.prems" loop_step [OF lt b] have "p = devs ! nat (cursor n node)" "n' = n1"
      by simp_all
    with True d lt k have "map_of (numaMap n) node = Some devs \<and> 0 \<le> cursor n node \<and>
       cursor n node < int (length devs) \<and> checked + 0 < length devs \<and>
       p = cand devs (cursor n node) 0 \<and> eligible_at env heap n cls prov p \<and>
       (\<forall>i<0. \<not> eligible_at env heap n cls prov (cand devs (cursor n node) i)) \<and>
       cursor n' node = (cursor n node + int 0 + 1) mod int (length devs)"
      by (simp add: cand_0)
    then show ?thesis by blast
  next
    case False
    with d(5) have s: "s = Continue" by simp
    with "1.prems" loop_step [OF lt b]
    have l: "getDeviceFromNUMA_loop env heap node cls prov (Suc checked) n1 = (Ok p, n')"
      by simp
    from "1.IH" [OF lt b [symmetric] s l] nm d(1)
    obtain j where ih: "Suc checked + j < length devs" "p = cand devs (cursor n1 node) j"
      "eligible_at env heap n1 cls prov p"
      "\<forall>i<j. \<not> eligible_at env heap n1 cls prov (cand devs (cursor n1 node) i)"
      "cursor n' node = (cursor n1 node + int j + 1) mod int (length devs)"
      by auto
    have "(cursor n1 node + (int j + 1)) mod int (length devs) =
          (cursor n node + 1 + (int j + 1)) mod int (length devs)"
      unfolding d(4) by (rule mod_add_left_eq)
    with ih(5) have c': "cursor n' node =
        (cursor n node + int (Suc j) + 1) mod int (length devs)"
      by (simp add: algebra_simps)
    have p: "p = cand devs (cursor n node) (Suc j)"
      using ih(2) unfolding d(4) cand_shift .
    have e: "eligible_at env heap n cls prov p"
      using ih(3) unfolding eligible_at_kept [OF bc(1)] .
    have "\<not> eligible_at env heap n cls prov (cand devs (cursor n node) i)" if "i < Suc j" for i
    proof (cases i)
      case 0
      with False d show ?thesis by (simp add: cand_0)
    next
      case (Suc i')
      with that ih(4) have "\<not> eligible_at env heap n1 cls prov (cand devs (cursor n1 node) i')"
        by simp
      then show ?thesis
        unfolding d(4) cand_shift Suc eligible_at_kept [OF bc(1)] .
    qed
    with c' p e d ih(1) have "map_of (numaMap n) node = Some devs \<and> 0 \<le> cursor n node \<and>
       cursor n node < int (length devs) \<and> checked + Suc j < length devs \<and>
       p = cand devs (cursor n node) (Suc j) \<and> eligible_at env heap n cls prov p \<and>
       (\<forall>i<Suc j. \<not> eligible_at env heap n cls prov (cand devs (cursor n node) i)) \<and>
       cursor n' node = (cursor n node + int (Suc j) + 1) mod int (length devs)"
      by simp
    then show ?thesis by blast
  qed
qed

lemma smod_mod: "0 < b \<Longrightarrow> 0 \<le> a smod b \<Longrightarrow> (a::int) smod b = a mod b"
proof (cases "0 \<le> a")
  case True
  assume "0 < b" with True show ?thesis by (rule smod_nonneg)
next
  case False
  assume b: "0 < b" and s: "0 \<le> a smod b"
  from False have "a smod b = - ((- a) mod b)" using b by (simp add: smod_int_alt_def)
  moreover have "0 \<le> (- a) mod b" using b by simp
  ultimately have z: "(- a) mod b = 0" using s by linarith
  then have "b dvd a" by (simp add: dvd_eq_mod_eq_0 [symmetric] del: dvd_minus_iff) (metis dvd_minus_iff mod_0_imp_dvd)
  with z show ?thesis using \<open>a smod b = - ((- a) mod b)\<close> by simp
qed

lemma cand_surj:
  assumes "0 \<le> c" "c < int (length devs)" "p \<in> set devs"
  shows "\<exists>i<length devs. p = cand devs c i"
proof -
  from assms(3) obtain a where a: "a < length devs" "p = devs ! a"
    by (auto simp: in_set_conv_nth)
  let ?k = "int (length devs)"
  let ?i = "nat ((int a - c) mod ?k)"
  have k: "0 < ?k" using a(1) by (cases devs) simp_all
  have "(c + int ?i) mod ?k = (c + (int a - c) mod ?k) mod ?k" using k by simp
  also have "\<dots> = (c + (int a - c)) mod ?k" by (rule mod_add_right_eq)
  also have "\<dots> = int a" using a by simp
  finally have "cand devs c ?i = devs ! a" by (simp add: cand_def)
  moreover have "?i < length devs" using k
    by (metis nat_less_iff pos_mod_bound pos_mod_sign)
  ultimately show ?thesis using a by metis
qed

lemma has_eligible_kept:
  "kept env n n' \<Longrightarrow> has_eligible env heap n' cls prov x = has_eligible env heap n cls prov x"
proof -
  assume k: "kept env n n'"
  then have "numaMap n' = numaMap n" by (simp add: kept_def)
  then show ?thesis
    by (simp add: has_eligible_def eligible_at_kept [OF k] split: option.splits)
qed

lemma scan_Err:
  assumes "getDeviceFromNUMA env heap n node cls prov = (Err e, n')"
  shows "e = FabricNotFoundErr cls" "kept env n n'" "currentNUMANode n' = currentNUMANode n"
    "cursor n' x = cursor n x" "\<not> has_eligible env heap n cls prov node"
proof -
  from assms have l: "getDeviceFromNUMA_loop env heap node cls prov 0 n = (Err e, n')"
    by (simp add: getDeviceFromNUMA_def)
  note f = loop_frame [OF l]
  show "e = FabricNotFoundErr cls" "kept env n n'" "currentNUMANode n' = currentNUMANode n"
    using f by simp_all
  show "cursor n' x = cursor n x"
  proof (cases "int 0 < getNumDevices n node")
    case False
    with l loop_done [OF False, of env heap cls prov] show ?thesis by simp
  next
    case True
    from loop_Err [OF l True] obtain devs where d: "map_of (numaMap n) node = Some devs"
      "0 \<le> cursor n node" "cursor n node < int (length devs)"
      "cursor n' node = (cursor n node + (int (length devs) - int 0)) mod int (length devs)"
      by blast
    then have "cursor n' node = cursor n node" by simp
    with f show ?thesis by (cases "x = node") auto
  qed
  show "\<not> has_eligible env heap n cls prov node"
  proof (cases "int 0 < getNumDevices n node")
    case False
    then show ?thesis by (auto simp: has_eligible_def getNumDevices_def split: option.splits)
  next
    case True
    from loop_Err [OF l True] obtain devs where d: "map_of (numaMap n) node = Some devs"
      "0 \<le> cursor n node" "cursor n node < int (length devs)"
      "\<forall>i. 0 + i < length devs \<longrightarrow>
          \<not> eligible_at env heap n cls prov (cand devs (cursor n node) i)"
      by blast
    have "\<not> eligible_at env heap n cls prov p" if "p \<in> set devs" for p
      using cand_surj [OF d(2,3) that] d(4) by auto
    with d(1) show ?thesis by (simp add: has_eligible_def)
  qed
qed

lemma scan_Ok:
  assumes "getDeviceFromNUMA env heap n node cls prov = (Ok p, n')"
  shows "kept env n n'" "currentNUMANode n' = currentNUMANode n"
    "x \<noteq> node \<Longrightarrow> cursor n' x = cursor n x"
    "\<exists>devs j. map_of (numaMap n) node = Some devs \<and> 0 \<le> cursor n node \<and>
       cursor n node < int (length devs) \<and> j < length devs \<and>
       p = cand devs (cursor n node) j \<and> eligible_at env heap n cls prov p \<and>
       (\<forall>i<j. \<not> eligible_at env heap n cls prov (cand devs (cursor n node) i)) \<and>
       cursor n' node = (cursor n node + int j + 1) mod int (length devs)"
proof -
  from assms have l: "getDeviceFromNUMA_loop env heap node cls prov 0 n = (Ok p, n')"
    by (simp add: getDeviceFromNUMA_def)
  note f = loop_frame [OF l]
  show "kept env n n'" "currentNUMANode n' = currentNUMANode n"
    "x \<noteq> node \<Longrightarrow> cursor n' x = cursor n x"
    using f by simp_all
  from loop_Ok [OF l] show "\<exists>devs j. map_of (numaMap n) node = Some devs \<and> 0 \<le> cursor n node \<and>
       cursor n node < int (length devs) \<and> j < length devs \<and>
       p = cand devs (cursor n node) j \<and> eligible_at env heap n cls prov p \<and>
       (\<forall>i<j. \<not> eligible_at env heap n cls prov (cand devs (cursor n node) i)) \<and>
       cursor n' node = (cursor n node + int j + 1) mod int (length devs)"
    by simp
qed

lemma scan_Panicked:
  "getDeviceFromNUMA env heap n node cls prov = (Panicked q, n') \<Longrightarrow> q \<noteq> NoFabricInterfaces y"
  using loop_frame [of env heap node cls prov 0 n "Panicked q" n']
  by (auto simp: getDeviceFromNUMA_def)

lemma ncand_shift: "ncand nodes ((c + 1) mod int (length nodes)) j = ncand nodes c (Suc j)"
proof -
  have "((c + 1) mod int (length nodes) + (1 + int j)) mod int (length nodes) =
        (c + 1 + (1 + int j)) mod int (length nodes)"
    by (rule mod_add_left_eq)
  then show ?thesis by (simp add: ncand_def ac_simps)
qed

lemma find_done:
  "\<not> i < length nodes \<Longrightarrow>
     findOnAnyNUMA_loop env heap nodes cls prov i n = (Err (FabricNotFoundErr cls), n)"
  by (simp add: findOnAnyNUMA_loop.simps)

lemma find_step:
  "i < length nodes \<Longrightarrow>
     findOnAnyNUMA_loop env heap nodes cls prov i n =
       (let cur = (currentNUMANode n + 1) smod int (length nodes);
            n1 = n\<lparr>currentNUMANode := cur\<rparr>
        in if 0 \<le> cur \<and> cur < int (length nodes) then
             (case getDeviceFromNUMA env heap n1 (nodes ! nat cur) cls prov of
                (Ok fi, n2) \<Rightarrow> (Ok fi, n2)
              | (Err e, n2) \<Rightarrow> findOnAnyNUMA_loop env heap nodes cls prov (Suc i) n2
              | (Panicked q, n2) \<Rightarrow> (Panicked q, n2))
           else (Panicked IndexOutOfRange, n1))"
  by (subst findOnAnyNUMA_loop.simps) simp

lemma set_cursor_facts:
  "kept env n (n\<lparr>currentNUMANode := c\<rparr>)"
  "cursor (n\<lparr>currentNUMANode := c\<rparr>) x = cursor n x"
  "currentNUMANode (n\<lparr>currentNUMANode := c\<rparr>) = c"
  "numaMap (n\<lparr>currentNUMANode := c\<rparr>) = numaMap n"
  by (simp_all add: kept_def validator_def cursor_def)

text \<open>One iteration of the loop of findOnAnyNUMA that does not panic.\<close>

lemma find_iter:
  assumes i: "i < length nodes"
    and r: "findOnAnyNUMA_loop env heap nodes cls prov i n = (r, n')"
    and np: "\<forall>q. r \<noteq> Panicked q"
  obtains n2 rs where
    "getDeviceFromNUMA env heap (n\<lparr>currentNUMANode := (currentNUMANode n + 1) mod int (length nodes)\<rparr>)
        (ncand nodes (currentNUMANode n) 0) cls prov = (rs, n2)"
    "\<forall>q. rs \<noteq> Panicked q"
    "\<And>p. rs = Ok p \<Longrightarrow> r = Ok p \<and> n' = n2"
    "\<And>e. rs = Err e \<Longrightarrow> findOnAnyNUMA_loop env heap nodes cls prov (Suc i) n2 = (r, n')"
proof -
  let ?N = "int (length nodes)"
  let ?cur = "(currentNUMANode n + 1) smod ?N"
  have N: "0 < ?N" using i by (cases nodes) simp_all
  have rng: "0 \<le> ?cur \<and> ?cur < ?N"
    using r np find_step [OF i, of env heap cls prov n]
    by (auto simp: Let_def split: if_splits)
  then have cur: "?cur = (currentNUMANode n + 1) mod ?N" using smod_mod [OF N] by simp
  have nc: "ncand nodes (currentNUMANode n) 0 = nodes ! nat ?cur"
    by (simp add: ncand_def cur)
  obtain rs n2 where g: "getDeviceFromNUMA env heap (n\<lparr>currentNUMANode := ?cur\<rparr>)
        (nodes ! nat ?cur) cls prov = (rs, n2)"
    by (cases "getDeviceFromNUMA env heap (n\<lparr>currentNUMANode := ?cur\<rparr>) (nodes ! nat ?cur) cls prov")
  have st: "(r, n') = (case rs of Ok fi \<Rightarrow> (Ok fi, n2)
              | Err e \<Rightarrow> findOnAnyNUMA_loop env heap nodes cls prov (Suc i) n2
              | Panicked q \<Rightarrow> (Panicked q, n2))"
    using r find_step [OF i, of env heap cls prov n] rng g by (simp add: Let_def)
  show ?thesis
  proof (rule that [of rs n2])
    show "getDeviceFromNUMA env heap (n\<lparr>currentNUMANode := (currentNUMANode n + 1) mod ?N\<rparr>)
        (ncand nodes (currentNUMANode n) 0) cls prov = (rs, n2)"
      using g nc cur by simp
    show "\<forall>q. rs \<noteq> Panicked q" using st np by (cases rs) auto
    show "rs = Ok p \<Longrightarrow> r = Ok p \<and> n' = n2" for p using st by simp
    show "rs = Err e \<Longrightarrow> findOnAnyNUMA_loop env heap nodes cls prov (Suc i) n2 = (r, n')" for e
      using st by simp
  qed
qed

lemma find_Err:
  "findOnAnyNUMA_loop env heap nodes cls prov i n = (Err e, n') \<Longrightarrow>
     e = FabricNotFoundErr cls \<and> kept env n n' \<and> (\<forall>x. cursor n' x = cursor n x) \<and>
     (if i < length nodes
      then currentNUMANode n' =
             (currentNUMANode n + (int (length nodes) - int i)) mod int (length nodes) \<and>
           (\<forall>j. i + j < length nodes \<longrightarrow>
              \<not> has_eligible env heap n cls prov (ncand nodes (currentNUMANode n) j))
      else n' = n)"
proof (induction "length nodes - i" arbitrary: i n)
  case 0
  then have "\<not> i < length nodes" by simp
  with "0.prems" find_done [OF this, of env heap cls prov n] show ?case
    by (simp add: kept_refl)
next
  case (Suc m)
  let ?N = "int (length nodes)"
  let ?c = "currentNUMANode n"
  let ?n1 = "n\<lparr>currentNUMANode := (?c + 1) mod ?N\<rparr>"
  from Suc(2) have i: "i < length nodes" by simp
  have np: "\<forall>q. Err e \<noteq> Panicked q" by simp
  from find_iter [OF i Suc.prems np] obtain n2 rs where
    g: "getDeviceFromNUMA env heap ?n1 (ncand nodes ?c 0) cls prov = (rs, n2)"
    and ok: "\<And>p. rs = Ok p \<Longrightarrow> Err e = Ok p \<and> n' = n2"
    and er: "\<And>e'. rs = Err e' \<Longrightarrow>
          findOnAnyNUMA_loop env heap nodes cls prov (Suc i) n2 = (Err e, n')"
    and rp: "\<forall>q. rs \<noteq> Panicked q"
    by metis
  from ok rp obtain e1 where rs: "rs = Err e1" by (cases rs) auto
  note se = scan_Err [OF g [unfolded rs]]
  note l = er [OF rs]
  have m: "m = length nodes - Suc i" using Suc(2) by simp
  note ih = Suc(1) [OF m l]
  have k2: "kept env n n2" using set_cursor_facts(1) se(2) by (rule kept_trans)
  have c2: "cursor n2 x = cursor n x" for x using se(4) [of x] set_cursor_facts(2) by simp
  have cn2: "currentNUMANode n2 = (?c + 1) mod ?N" using se(3) by simp
  have h0: "\<not> has_eligible env heap n cls prov (ncand nodes ?c 0)"
    using se(5) by (simp add: has_eligible_kept [OF set_cursor_facts(1)])
  have e: "e = FabricNotFoundErr cls" and k: "kept env n n'"
    and cs: "\<forall>x. cursor n' x = cursor n x"
    using ih k2 c2 by (auto intro: kept_trans)
  have "currentNUMANode n' = (?c + (?N - int i)) mod ?N \<and>
           (\<forall>j. i + j < length nodes \<longrightarrow> \<not> has_eligible env heap n cls prov (ncand nodes ?c j))"
  proof (cases "Suc i < length nodes")
    case False
    with ih have "n' = n2" by simp
    moreover from False i have N: "length nodes = Suc i" by simp
    ultimately have "currentNUMANode n' = (?c + (?N - int i)) mod ?N" using cn2 by simp
    moreover have "\<not> has_eligible env heap n cls prov (ncand nodes ?c j)" if "i + j < length nodes" for j
      using that N h0 by simp
    ultimately show ?thesis by simp
  next
    case True
    with ih have a: "currentNUMANode n' = (currentNUMANode n2 + (?N - int (Suc i))) mod ?N"
      and b: "\<forall>j. Suc i + j < length nodes \<longrightarrow>
              \<not> has_eligible env heap n2 cls prov (ncand nodes (currentNUMANode n2) j)"
      by simp_all
    have "((?c + 1) mod ?N + (?N - int (Suc i))) mod ?N = (?c + 1 + (?N - int (Suc i))) mod ?N"
      by (rule mod_add_left_eq)
    with a cn2 have "currentNUMANode n' = (?c + (?N - int i)) mod ?N"
      by (simp add: algebra_simps)
    moreover have "\<not> has_eligible env heap n cls prov (ncand nodes ?c j)" if "i + j < length nodes" for j
    proof (cases j)
      case 0
      with h0 show ?thesis by simp
    next
      case (Suc j')
      with that b have "\<not> has_eligible env heap n2 cls prov (ncand nodes (currentNUMANode n2) j')"
        by simp
      then show ?thesis
        unfolding cn2 ncand_shift Suc has_eligible_kept [OF k2] .
    qed
    ultimately show ?thesis by simp
  qed
  with e k cs i show ?case by simp
qed

lemma find_Ok:
  "findOnAnyNUMA_loop env heap nodes cls prov i n = (Ok p, n') \<Longrightarrow>
     \<exists>j n1. i + j < length nodes \<and>
       currentNUMANode n' = (currentNUMANode n + 1 + int j) mod int (length nodes) \<and>
       (\<forall>j'<j. \<not> has_eligible env heap n cls prov (ncand nodes (currentNUMANode n) j')) \<and>
       kept env n n1 \<and> (\<forall>x. cursor n1 x = cursor n x) \<and>
       getDeviceFromNUMA env heap n1 (ncand nodes (currentNUMANode n) j) cls prov = (Ok p, n')"
proof (induction "length nodes - i" arbitrary: i n)
  case 0
  then have "\<not> i < length nodes" by simp
  with "0.prems" find_done [OF this, of env heap cls prov n] show ?case by simp
next
  case (Suc m)
  let ?N = "int (length nodes)"
  let ?c = "currentNUMANode n"
  let ?n1 = "n\<lparr>currentNUMANode := (?c + 1) mod ?N\<rparr>"
  from Suc(2) have i: "i < length nodes" by simp
  have np: "\<forall>q. Ok p \<noteq> Panicked q" by simp
  from find_iter [OF i Suc.prems np] obtain n2 rs where
    g: "getDeviceFromNUMA env heap ?n1 (ncand nodes ?c 0) cls prov = (rs, n2)"
    and ok: "\<And>p'. rs = Ok p' \<Longrightarrow> Ok p = Ok p' \<and> n' = n2"
    and er: "\<And>e'. rs = Err e' \<Longrightarrow>
          findOnAnyNUMA_loop env heap nodes cls prov (Suc i) n2 = (Ok p, n')"
    and rp: "\<forall>q. rs \<noteq> Panicked q"
    by metis
  show ?case
  proof (cases rs)
    case (Ok p')
    with ok have e: "p' = p" "n' = n2" by auto
    from g Ok e have g': "getDeviceFromNUMA env heap ?n1 (ncand nodes ?c 0) cls prov = (Ok p, n')"
      by simp
    from scan_Ok(2) [OF g'] have "currentNUMANode n' = (?c + 1 + int 0) mod ?N" by simp
    with i g'
    have "i + 0 < length nodes \<and>
       currentNUMANode n' = (?c + 1 + int 0) mod ?N \<and>
       (\<forall>j'<0. \<not> has_eligible env heap n cls prov (ncand nodes ?c j')) \<and>
       kept env n ?n1 \<and> (\<forall>x. cursor ?n1 x = cursor n x) \<and>
       getDeviceFromNUMA env heap ?n1 (ncand nodes ?c 0) cls prov = (Ok p, n')"
      by (simp add: set_cursor_facts)
    then show ?thesis by blast
  next
    case (Panicked q)
    with rp show ?thesis by simp
  next
    case (Err e1)
    note se = scan_Err [OF g [unfolded Err]]
    note l = er [OF Err]
    have m: "m = length nodes - Suc i" using Suc(2) by simp
    have k2: "kept env n n2" using set_cursor_facts(1) se(2) by (rule kept_trans)
    have c2: "cursor n2 x = cursor n x" for x using se(4) [of x] set_cursor_facts(2) by simp
    have cn2: "currentNUMANode n2 = (?c + 1) mod ?N" using se(3) by simp
    have h0: "\<not> has_eligible env heap n cls prov (ncand nodes ?c 0)"
      using se(5) by (simp add: has_eligible_kept [OF set_cursor_facts(1)])
    from Suc(1) [OF m l] obtain j n1 where ih: "Suc i + j < length nodes"
      "currentNUMANode n' = (currentNUMANode n2 + 1 + int j) mod ?N"
      "\<forall>j'<j. \<not> has_eligible env heap n2 cls prov (ncand nodes (currentNUMANode n2) j')"
      "kept env n2 n1" "\<forall>x. cursor n1 x = cursor n2 x"
      "getDeviceFromNUMA env heap n1 (ncand nodes (currentNUMANode n2) j) cls prov = (Ok p, n')"
      by blast
    have "((?c + 1) mod ?N + (1 + int j)) mod ?N = (?c + 1 + (1 + int j)) mod ?N"
      by (rule mod_add_left_eq)
    with ih(2) cn2 have a: "currentNUMANode n' = (?c + 1 + int (Suc j)) mod ?N"
      by (simp add: algebra_simps)
    have b: "\<not> has_eligible env heap n cls prov (ncand nodes ?c j')" if "j' < Suc j" for j'
    proof (cases j')
      case 0
      with h0 show ?thesis by simp
    next
      case (Suc j'')
      with that ih(3) have "\<not> has_eligible env heap n2 cls prov (ncand nodes (currentNUMANode n2) j'')"
        by simp
      then show ?thesis
        unfolding cn2 ncand_shift Suc has_eligible_kept [OF k2] .
    qed
    have c: "kept env n n1" using k2 ih(4) by (rule kept_trans)
    have d: "\<forall>x. cursor n1 x = cursor n x" using ih(5) c2 by simp
    have e: "getDeviceFromNUMA env heap n1 (ncand nodes ?c (Suc j)) cls prov = (Ok p, n')"
      using ih(6) unfolding cn2 ncand_shift .
    from ih(1) a b c d e have "i + Suc j < length nodes \<and>
       currentNUMANode n' = (?c + 1 + int (Suc j)) mod ?N \<and>
       (\<forall>j'<Suc j. \<not> has_eligible env heap n cls prov (ncand nodes ?c j')) \<and>
       kept env n n1 \<and> (\<forall>x. cursor n1 x = cursor n x) \<and>
       getDeviceFromNUMA env heap n1 (ncand nodes ?c (Suc j)) cls prov = (Ok p, n')"
      by simp
    then show ?thesis by blast
  qed
qed

lemma find_Panicked:
  "findOnAnyNUMA_loop env heap nodes cls prov i n = (Panicked q, n') \<Longrightarrow>
     q \<noteq> NoFabricInterfaces y"
proof (induction "length nodes - i" arbitrary: i n)
  case 0
  then have "\<not> i < length nodes" by simp
  with "0.prems" find_done [OF this, of env heap cls prov n] show ?case by simp
next
  case (Suc m)
  let ?N = "int (length nodes)"
  let ?cur = "(currentNUMANode n + 1) smod ?N"
  let ?n1 = "n\<lparr>currentNUMANode := ?cur\<rparr>"
  from Suc(2) have i: "i < length nodes" by simp
  have m: "m = length nodes - Suc i" using Suc(2) by simp
  obtain rs n2 where g: "getDeviceFromNUMA env heap ?n1 (nodes ! nat ?cur) cls prov = (rs, n2)"
    by (cases "getDeviceFromNUMA env heap ?n1 (nodes ! nat ?cur) cls prov")
  show ?case
  proof (cases "0 \<le> ?cur \<and> ?cur < ?N")
    case False
    with Suc.prems find_step [OF i, of env heap cls prov n] show ?thesis
      by (auto simp: Let_def)
  next
    case True
    with Suc.prems find_step [OF i, of env heap cls prov n] g
    have st: "(Panicked q, n') = (case rs of Ok fi \<Rightarrow> (Ok fi, n2)
              | Err e \<Rightarrow> findOnAnyNUMA_loop env heap nodes cls prov (Suc i) n2
              | Panicked q \<Rightarrow> (Panicked q, n2))"
      by (simp add: Let_def)
    show ?thesis
    proof (cases rs)
      case (Ok p)
      with st show ?thesis by simp
    next
      case (Err e)
      with st have "findOnAnyNUMA_loop env heap nodes cls prov (Suc i) n2 = (Panicked q, n')"
        by simp
      from Suc(1) [OF m this] show ?thesis .
    next
      case (Panicked q')
      with st g have "getDeviceFromNUMA env heap ?n1 (nodes ! nat ?cur) cls prov = (Panicked q, n2)"
        by simp
      then show ?thesis by (rule scan_Panicked)
    qed
  qed
qed

lemma well_formed_node_ok:
  "well_formed env heap n \<Longrightarrow> map_of (numaMap n) x = Some devs \<Longrightarrow> node_ok env heap n x devs"
  by (auto simp: well_formed_def list_all_iff dest: map_of_SomeD)

lemma valid_dev_kept: "kept env n n' \<Longrightarrow> valid_dev env heap n' p = valid_dev env heap n p"
  by (simp add: valid_dev_def kept_def split: option.splits)

lemma node_ok_kept:
  "kept env n n' \<Longrightarrow> cursor n' x = cursor n x \<Longrightarrow> node_ok env heap n' x devs = node_ok env heap n x devs"
  by (simp add: node_ok_def valid_dev_kept cong: list.pred_cong)

lemma body_at_cursor:
  assumes d: "map_of (numaMap n) node = Some devs"
    and c: "0 \<le> cursor n node" "cursor n node < int (length devs)"
    and ok: "valid_dev env heap n (devs ! nat (cursor n node))"
    and b: "getDeviceFromNUMA_body env heap n node cls prov = (s, n')"
  shows "s \<noteq> Abort q"
proof
  assume s: "s = Abort q"
  let ?c = "cursor n node"
  from ok obtain v where v: "deref heap (devs ! nat ?c) = Some v" "validator env n (Name v) \<noteq> Inr None"
    by (auto simp: valid_dev_def split: option.splits)
  have k: "0 < getNumDevices n node" using d c by (cases devs) (simp_all add: getNumDevices_def)
  obtain r0 n0 where g0: "getNextDevIndex n node = (r0, n0)" by (cases "getNextDevIndex n node")
  note c0 = getNextDevIndex_cases [OF g0]
  from c0(4) [OF k] have r0: "r0 = Inr ?c" by simp
  have nm: "numaMap n0 = numaMap n" and ga: "getAddrInterface n0 = getAddrInterface n"
    using c0(1) by simp_all
  have g: "getNextDevice n node = (Inr (devs ! nat ?c), n0)"
    using g0 r0 nm d c by (simp add: getNextDevice_def)
  have vn0: "validator env n0 = validator env n" using ga by (simp add: validator_def)
  obtain r1 n1 where vd: "validateDevice env n0 v = (r1, n1)" by (cases "validateDevice env n0 v")
  from validateDevice_cases(5) [OF vd] v(2) vn0 have "\<forall>q. r1 \<noteq> Panicked q" by simp
  with b s g v(1) vd show False
    by (cases r1) (auto simp: getDeviceFromNUMA_body_def split: if_splits)
qed

lemma body_no_abort:
  assumes d: "map_of (numaMap n) node = Some devs" and nz: "devs \<noteq> []"
    and ok: "node_ok env heap n node devs"
    and b: "getDeviceFromNUMA_body env heap n node cls prov = (s, n')"
  shows "s \<noteq> Abort q"
proof -
  let ?c = "cursor n node"
  from ok nz have c: "0 \<le> ?c" "?c < int (length devs)" by (auto simp: node_ok_def)
  then have "devs ! nat ?c \<in> set devs" by simp
  with ok have "valid_dev env heap n (devs ! nat ?c)" by (auto simp: node_ok_def list_all_iff)
  from body_at_cursor [OF d c this b] show ?thesis .
qed

lemma loop_no_panic:
  "map_of (numaMap n) node = Some devs \<Longrightarrow> node_ok env heap n node devs \<Longrightarrow>
     fst (getDeviceFromNUMA_loop env heap node cls prov checked n) \<noteq> Panicked q"
proof (induction env heap node cls prov checked n rule: getDeviceFromNUMA_loop.induct)
  case (1 env heap node cls prov checked n)
  show ?case
  proof (cases "int checked < getNumDevices n node")
    case False
    then show ?thesis by (simp add: loop_done)
  next
    case True
    with "1.prems"(1) have nz: "devs \<noteq> []" by (auto simp: getNumDevices_def)
    obtain s n1 where b: "getDeviceFromNUMA_body env heap n node cls prov = (s, n1)"
      by (cases "getDeviceFromNUMA_body env heap n node cls prov")
    note bc = body_cases [OF b]
    have na: "\<forall>q. s \<noteq> Abort q" using body_no_abort [OF "1.prems"(1) nz "1.prems"(2) b] by simp
    show ?thesis
    proof (cases s)
      case Continue
      have nm: "numaMap n1 = numaMap n" using bc(1) by (simp add: kept_def)
      from bc(5) [OF na] "1.prems"(1) have c1: "0 \<le> cursor n1 node" "cursor n1 node < int (length devs)"
        using nz by auto
      have ok1: "node_ok env heap n1 node devs"
        using "1.prems"(2) c1 by (simp add: node_ok_def valid_dev_kept [OF bc(1)] cong: list.pred_cong)
      from "1.IH" [OF True b [symmetric] Continue _ ok1] nm "1.prems"(1)
      show ?thesis using loop_step [OF True b] Continue by simp
    next
      case (Return p)
      then show ?thesis using loop_step [OF True b] by simp
    next
      case (Abort q')
      with na show ?thesis by simp
    qed
  qed
qed

lemma scan_no_panic:
  assumes "\<And>devs. map_of (numaMap n) node = Some devs \<Longrightarrow> node_ok env heap n node devs"
  shows "fst (getDeviceFromNUMA env heap n node cls prov) \<noteq> Panicked q"
proof (cases "map_of (numaMap n) node")
  case None
  then have "\<not> int 0 < getNumDevices n node" by (simp add: getNumDevices_def)
  then show ?thesis by (simp add: getDeviceFromNUMA_def loop_done)
next
  case (Some devs)
  from loop_no_panic [OF Some assms [OF Some]] show ?thesis by (simp add: getDeviceFromNUMA_def)
qed

lemma cand_rotate:
  assumes "0 \<le> c" "j < length devs"
  shows "rotate (nat c) devs ! j = cand devs c j"
proof -
  have "(c + int j) mod int (length devs) = int ((nat c + j) mod length devs)"
    using assms(1) by (simp add: zmod_int)
  then have "nat ((c + int j) mod int (length devs)) = (nat c + j) mod length devs" by simp
  then show ?thesis using assms(2) by (simp add: cand_def nth_rotate)
qed

lemma ncand_rotate:
  assumes "j < length nodes"
  shows "rotate (nat ((c + 1) mod int (length nodes))) nodes ! j = ncand nodes c j"
proof -
  let ?N = "int (length nodes)"
  have N: "0 < ?N" using assms by (cases nodes) simp_all
  then have m: "int (nat ((c + 1) mod ?N)) = (c + 1) mod ?N" by simp
  have "int ((nat ((c + 1) mod ?N) + j) mod length nodes) = ((c + 1) mod ?N + int j) mod ?N"
    using m by (simp add: zmod_int)
  also have "\<dots> = (c + 1 + int j) mod ?N" by (rule mod_add_left_eq)
  finally have "(nat ((c + 1) mod ?N) + j) mod length nodes = nat ((c + 1 + int j) mod ?N)"
    by linarith
  then show ?thesis using assms by (simp add: ncand_def nth_rotate)
qed

lemma find_nth:
  "j < length xs \<Longrightarrow> P (xs ! j) \<Longrightarrow> \<forall>i<j. \<not> P (xs ! i) \<Longrightarrow> find P xs = Some (xs ! j)"
  unfolding find_Some_iff by blast

lemma has_eligible_first:
  "has_eligible env heap n cls prov node = (first_eligible env heap n cls prov node \<noteq> None)"
  by (cases "map_of (numaMap n) node")
     (auto simp: has_eligible_def first_eligible_def candidates_def find_None_iff)

lemma scan_Ok_first:
  assumes "getDeviceFromNUMA env heap n node cls prov = (Ok p, n')"
  shows "first_eligible env heap n cls prov node = Some p"
proof -
  from scan_Ok(4) [OF assms] obtain devs j where d: "map_of (numaMap n) node = Some devs"
    "0 \<le> cursor n node" "cursor n node < int (length devs)" "j < length devs"
    "p = cand devs (cursor n node) j" "eligible_at env heap n cls prov p"
    "\<forall>i<j. \<not> eligible_at env heap n cls prov (cand devs (cursor n node) i)"
    by blast
  let ?xs = "rotate (nat (cursor n node)) devs"
  have "find (eligible_at env heap n cls prov) ?xs = Some (?xs ! j)"
  proof (rule find_nth)
    show "j < length ?xs" using d(4) by simp
    show "eligible_at env heap n cls prov (?xs ! j)"
      using d(5,6) cand_rotate [OF d(2,4)] by simp
    show "\<forall>i<j. \<not> eligible_at env heap n cls prov (?xs ! i)"
      using d(7) d(4) cand_rotate [OF d(2)] by simp
  qed
  then show ?thesis using d(1,5) cand_rotate [OF d(2,4)]
    by (simp add: first_eligible_def candidates_def)
qed

lemma scan_Err_first:
  assumes "getDeviceFromNUMA env heap n node cls prov = (Err e, n')"
  shows "first_eligible env heap n cls prov node = None"
  using scan_Err(5) [OF assms] by (simp add: has_eligible_first)

lemma scan_total:
  assumes "\<And>devs. map_of (numaMap n) node = Some devs \<Longrightarrow> node_ok env heap n node devs"
  shows "fst (getDeviceFromNUMA env heap n node cls prov) =
     (case first_eligible env heap n cls prov node of
        None \<Rightarrow> Err (FabricNotFoundErr cls) | Some p \<Rightarrow> Ok p)"
proof -
  obtain r n' where g: "getDeviceFromNUMA env heap n node cls prov = (r, n')"
    by (cases "getDeviceFromNUMA env heap n node cls prov")
  show ?thesis
  proof (cases r)
    case (Ok p)
    with g scan_Ok_first [of env heap n node cls prov p n'] show ?thesis by simp
  next
    case (Err e)
    with g scan_Err_first [of env heap n node cls prov e n']
      scan_Err(1) [of env heap n node cls prov e n'] show ?thesis by simp
  next
    case (Panicked q)
    with g scan_no_panic [OF assms, of cls prov q] show ?thesis by simp
  qed
qed

lemma find_no_panic:
  assumes "\<And>x devs. map_of (numaMap n) x = Some devs \<Longrightarrow> node_ok env heap n x devs"
    and "0 \<le> currentNUMANode n"
  shows "fst (findOnAnyNUMA_loop env heap nodes cls prov i n) \<noteq> Panicked q"
  using assms
proof (induction "length nodes - i" arbitrary: i n)
  case 0
  then have "\<not> i < length nodes" by simp
  then show ?case by (simp add: find_done)
next
  case (Suc m)
  let ?N = "int (length nodes)"
  let ?cur = "(currentNUMANode n + 1) smod ?N"
  let ?n1 = "n\<lparr>currentNUMANode := ?cur\<rparr>"
  from Suc(2) have i: "i < length nodes" by simp
  have m: "m = length nodes - Suc i" using Suc(2) by simp
  have N: "0 < ?N" using i by (cases nodes) simp_all
  have cur: "?cur = (currentNUMANode n + 1) mod ?N" using Suc.prems(2) N by (simp add: smod_nonneg)
  have rng: "0 \<le> ?cur \<and> ?cur < ?N" unfolding cur using N by simp
  have ok1: "node_ok env heap ?n1 x devs" if "map_of (numaMap ?n1) x = Some devs" for x devs
    using that Suc.prems(1) [of x devs]
    by (simp add: node_ok_kept [OF set_cursor_facts(1) set_cursor_facts(2)])
  obtain rs n2 where g: "getDeviceFromNUMA env heap ?n1 (nodes ! nat ?cur) cls prov = (rs, n2)"
    by (cases "getDeviceFromNUMA env heap ?n1 (nodes ! nat ?cur) cls prov")
  have st: "findOnAnyNUMA_loop env heap nodes cls prov i n = (case rs of Ok fi \<Rightarrow> (Ok fi, n2)
              | Err e \<Rightarrow> findOnAnyNUMA_loop env heap nodes cls prov (Suc i) n2
              | Panicked q \<Rightarrow> (Panicked q, n2))"
    using find_step [OF i, of env heap cls prov n] rng g by (simp add: Let_def)
  show ?case
  proof (cases rs)
    case (Ok p)
    with st show ?thesis by simp
  next
    case (Panicked q')
    with g scan_no_panic [of ?n1 "nodes ! nat ?cur" env heap cls prov q'] ok1 show ?thesis
      by simp
  next
    case (Err e)
    note se = scan_Err [OF g [unfolded Err]]
    have ok2: "node_ok env heap n2 x devs" if "map_of (numaMap n2) x = Some devs" for x devs
    proof -
      have "numaMap n2 = numaMap ?n1" using se(2) by (simp add: kept_def)
      with that ok1 have "node_ok env heap ?n1 x devs" by simp
      then show ?thesis by (simp add: node_ok_kept [OF se(2) se(4)])
    qed
    have c2: "0 \<le> currentNUMANode n2" using se(3) rng by simp
    from Suc(1) [OF m ok2 c2] st Err show ?thesis by simp
  qed
qed

lemma deref_append: "deref heap p = Some v \<Longrightarrow> deref (heap @ ws) p = Some v"
  by (auto simp: deref_def nth_append split: option.splits if_splits)

lemma copyFI_Some: "deref heap p = Some v \<Longrightarrow> copyFI heap p = (Inr (Some (length heap)), heap @ [v])"
  by (simp add: copyFI_def)

lemma eligible_at_deref:
  "eligible_at env heap n cls prov p \<Longrightarrow> \<exists>v. deref heap p = Some v \<and> eligible env n cls prov v"
  by (cases "deref heap p") (simp_all add: eligible_at_def)

lemma live_valid: "live env n name \<Longrightarrow> validator env n name \<noteq> Inr None"
  by (auto simp: live_def)

lemma scan_at_cursor:
  assumes d: "map_of (numaMap n) node = Some devs"
    and c: "0 \<le> cursor n node" "cursor n node < int (length devs)"
    and v: "deref heap (devs ! nat (cursor n node)) = Some v"
    and e: "eligible env n cls prov v"
  shows "\<exists>n'. getDeviceFromNUMA env heap n node cls prov = (Ok (devs ! nat (cursor n node)), n') \<and>
     kept env n n' \<and> currentNUMANode n' = currentNUMANode n \<and>
     (\<forall>x. x \<noteq> node \<longrightarrow> cursor n' x = cursor n x) \<and>
     cursor n' node = (cursor n node + 1) mod int (length devs)"
proof -
  let ?p = "devs ! nat (cursor n node)"
  obtain s n1 where b: "getDeviceFromNUMA_body env heap n node cls prov = (s, n1)"
    by (cases "getDeviceFromNUMA_body env heap n node cls prov")
  note bc = body_cases [OF b]
  have "valid_dev env heap n ?p" using v e by (simp add: valid_dev_def eligible_def live_valid)
  from body_at_cursor [OF d c this b] have na: "\<forall>q. s \<noteq> Abort q" by simp
  have el: "eligible_at env heap n cls prov ?p" using v e by (simp add: eligible_at_def)
  from bc(5) [OF na] d el have s: "s = Return ?p"
    and c1: "cursor n1 node = (cursor n node + 1) mod int (length devs)" by auto
  have lt: "int 0 < getNumDevices n node" using d c by (cases devs) (simp_all add: getNumDevices_def)
  from loop_step [OF lt b] s
  have "getDeviceFromNUMA env heap n node cls prov = (Ok ?p, n1)"
    by (simp add: getDeviceFromNUMA_def)
  with bc(1,2,3) c1 show ?thesis by blast
qed

lemma GetDevice_Ok:
  assumes "GetDevice env heap (Some n) (Some ps) = (Ok r, heap', n'')"
  shows "\<exists>p v n'. n'' = Some n' \<and> deref heap p = Some v \<and> r = Some (length heap) \<and>
      heap' = heap @ [v] \<and> Provider ps \<noteq> [] \<and>
      (getDeviceFromNUMA env heap n (NUMANode ps) (DevClass ps) (Provider ps) = (Ok p, n') \<or>
       (\<exists>e n1. getDeviceFromNUMA env heap n (NUMANode ps) (DevClass ps) (Provider ps) = (Err e, n1) \<and>
          findOnAnyNUMA env heap n1 (DevClass ps) (Provider ps) = (Ok p, n')))"
proof -
  have pr: "Provider ps \<noteq> []" using assms by (auto simp: GetDevice_def)
  obtain r1 n1 where g: "getDeviceFromNUMA env heap n (NUMANode ps) (DevClass ps) (Provider ps) = (r1, n1)"
    by (cases "getDeviceFromNUMA env heap n (NUMANode ps) (DevClass ps) (Provider ps)")
  show ?thesis
  proof (cases r1)
    case (Ok p)
    from scan_Ok(4) [OF g [unfolded Ok]] eligible_at_deref obtain v where v: "deref heap p = Some v"
      by blast
    with assms pr g Ok copyFI_Some [OF v] show ?thesis by (auto simp: GetDevice_def)
  next
    case (Panicked q)
    with assms pr g show ?thesis by (simp add: GetDevice_def)
  next
    case (Err e)
    obtain r2 n2 where f: "findOnAnyNUMA env heap n1 (DevClass ps) (Provider ps) = (r2, n2)"
      by (cases "findOnAnyNUMA env heap n1 (DevClass ps) (Provider ps)")
    show ?thesis
    proof (cases r2)
      case (Ok p)
      from find_Ok [of env heap "getNUMANodes n1" "DevClass ps" "Provider ps" 0 n1 p n2] f Ok
      obtain j n3 where "getDeviceFromNUMA env heap n3
          (ncand (getNUMANodes n1) (currentNUMANode n1) j) (DevClass ps) (Provider ps) = (Ok p, n2)"
        by (auto simp: findOnAnyNUMA_def)
      from scan_Ok(4) [OF this] eligible_at_deref obtain v where v: "deref heap p = Some v"
        by blast
      with assms pr g Err f Ok copyFI_Some [OF v] show ?thesis by (auto simp: GetDevice_def)
    next
      case (Err e2)
      with assms pr g \<open>r1 = Err e\<close> f show ?thesis by (simp add: GetDevice_def)
    next
      case (Panicked q)
      with assms pr g Err f show ?thesis by (simp add: GetDevice_def)
    qed
  qed
qed

lemma GetDevice_Err:
  assumes "GetDevice env heap (Some n) (Some ps) = (Err e, heap', n'')"
  shows "heap' = heap \<and>
     ((e = ErrProviderRequired \<and> Provider ps = [] \<and> n'' = Some n) \<or>
      (Provider ps \<noteq> [] \<and>
       (\<exists>e1 n1 n'. n'' = Some n' \<and>
          getDeviceFromNUMA env heap n (NUMANode ps) (DevClass ps) (Provider ps) = (Err e1, n1) \<and>
          findOnAnyNUMA env heap n1 (DevClass ps) (Provider ps) = (Err e, n'))))"
proof (cases "Provider ps = []")
  case True
  with assms show ?thesis by (auto simp: GetDevice_def)
next
  case pr: False
  obtain r1 n1 where g: "getDeviceFromNUMA env heap n (NUMANode ps) (DevClass ps) (Provider ps) = (r1, n1)"
    by (cases "getDeviceFromNUMA env heap n (NUMANode ps) (DevClass ps) (Provider ps)")
  obtain r2 n2 where f: "findOnAnyNUMA env heap n1 (DevClass ps) (Provider ps) = (r2, n2)"
    by (cases "findOnAnyNUMA env heap n1 (DevClass ps) (Provider ps)")
  from assms pr g f show ?thesis
    by (cases r1; cases r2)
       (auto simp: GetDevice_def copyFI_def split: option.splits prod.splits sum.splits)
qed

lemma GetDevice_Panicked:
  assumes "GetDevice env heap n params = (Panicked q, heap', n'')"
  shows "q \<noteq> NoFabricInterfaces y"
proof -
  from assms obtain n0 ps where n: "n = Some n0" "params = Some ps" "Provider ps \<noteq> []"
    by (auto simp: GetDevice_def split: option.splits if_splits)
  obtain r1 n1 where g: "getDeviceFromNUMA env heap n0 (NUMANode ps) (DevClass ps) (Provider ps) = (r1, n1)"
    by (cases "getDeviceFromNUMA env heap n0 (NUMANode ps) (DevClass ps) (Provider ps)")
  obtain r2 n2 where f: "findOnAnyNUMA env heap n1 (DevClass ps) (Provider ps) = (r2, n2)"
    by (cases "findOnAnyNUMA env heap n1 (DevClass ps) (Provider ps)")
  have cp: "fst (copyFI heap p) \<noteq> Inl (NoFabricInterfaces y)" for p
    by (simp add: copyFI_def split: option.splits)
  show ?thesis
  proof (cases r1)
    case (Ok p)
    with assms n g cp [of p] show ?thesis
      by (auto simp: GetDevice_def split: prod.splits sum.splits)
  next
    case (Panicked q')
    with assms n g scan_Panicked [of env heap n0 "NUMANode ps" "DevClass ps" "Provider ps" q' n1 y]
    show ?thesis by (auto simp: GetDevice_def)
  next
    case (Err e)
    show ?thesis
    proof (cases r2)
      case (Ok p)
      with assms n g Err f cp [of p] show ?thesis
        by (auto simp: GetDevice_def split: prod.splits sum.splits)
    next
      case (Err e2)
      with assms n g \<open>r1 = Err e\<close> f show ?thesis by (simp add: GetDevice_def)
    next
      case (Panicked q')
      with assms n g Err f
        find_Panicked [of env heap "getNUMANodes n1" "DevClass ps" "Provider ps" 0 n1 q' n2 y]
      show ?thesis by (auto simp: GetDevice_def findOnAnyNUMA_def)
    qed
  qed
qed

lemma GetDevice_no_panic:
  assumes wf: "well_formed env heap n"
  shows "fst (GetDevice env heap (Some n) params) \<noteq> Panicked q"
proof (cases params)
  case None
  then show ?thesis by (simp add: GetDevice_def)
next
  case (Some ps)
  show ?thesis
  proof (cases "Provider ps = []")
    case True
    with Some show ?thesis by (simp add: GetDevice_def)
  next
    case pr: False
    obtain r1 n1 where g: "getDeviceFromNUMA env heap n (NUMANode ps) (DevClass ps) (Provider ps) = (r1, n1)"
      by (cases "getDeviceFromNUMA env heap n (NUMANode ps) (DevClass ps) (Provider ps)")
    obtain r2 n2 where f: "findOnAnyNUMA env heap n1 (DevClass ps) (Provider ps) = (r2, n2)"
      by (cases "findOnAnyNUMA env heap n1 (DevClass ps) (Provider ps)")
    have np1: "r1 \<noteq> Panicked q'" for q'
      using scan_no_panic [of n "NUMANode ps" env heap "DevClass ps" "Provider ps" q']
        well_formed_node_ok [OF wf] g by simp
    show ?thesis
    proof (cases r1)
      case (Ok p)
      from scan_Ok(4) [OF g [unfolded Ok]] eligible_at_deref obtain v where "deref heap p = Some v"
        by blast
      with Some pr g Ok show ?thesis by (simp add: GetDevice_def copyFI_Some)
    next
      case (Panicked q')
      with np1 [of q'] show ?thesis by simp
    next
      case (Err e)
      note se = scan_Err [OF g [unfolded Err]]
      have ok1: "node_ok env heap n1 x devs" if "map_of (numaMap n1) x = Some devs" for x devs
      proof -
        have "numaMap n1 = numaMap n" using se(2) by (simp add: kept_def)
        with that well_formed_node_ok [OF wf] have "node_ok env heap n x devs" by simp
        then show ?thesis by (simp add: node_ok_kept [OF se(2) se(4)])
      qed
      have c1: "0 \<le> currentNUMANode n1" using se(3) wf by (simp add: well_formed_def cross_cursor_ok_def)
      have np2: "r2 \<noteq> Panicked q'" for q'
        using find_no_panic [of n1 env heap "getNUMANodes n1" "DevClass ps" "Provider ps" 0 q'] ok1 c1 f
        by (simp add: findOnAnyNUMA_def)
      show ?thesis
      proof (cases r2)
        case (Ok p)
        from find_Ok [of env heap "getNUMANodes n1" "DevClass ps" "Provider ps" 0 n1 p n2] f Ok
        obtain j n3 where "getDeviceFromNUMA env heap n3
          (ncand (getNUMANodes n1) (currentNUMANode n1) j) (DevClass ps) (Provider ps) = (Ok p, n2)"
          by (auto simp: findOnAnyNUMA_def)
        from scan_Ok(4) [OF this] eligible_at_deref obtain v where "deref heap p = Some v"
          by blast
        with Some pr g Err f Ok show ?thesis by (simp add: GetDevice_def copyFI_Some)
      next
        case (Err e2)
        with Some pr g \<open>r1 = Err e\<close> f show ?thesis by (simp add: GetDevice_def)
      next
        case (Panicked q')
        with np2 [of q'] show ?thesis by simp
      qed
    qed
  qed
qed

subsection \<open>C8: the panic of getNextDevIndex\<close>

text \<open>
  C8. \<open>getNextDevIndex\<close> panics exactly when the node has no device, and then with the
  message about that node. No call of \<open>GetDevice\<close>, on any engine and with any
  parameters, ends in that panic: the loop of \<open>getDeviceFromNUMA\<close> asks for the next
  index only while its counter is below the number of devices of the node. This holds for
  every inventory, also for one that maps a key to an empty list.
\<close>

theorem no_interfaces_panic_unreachable:
  "((\<exists>q. fst (getNextDevIndex n numaNode) = Inl q) = (getNumDevices n numaNode = 0)) \<and>
   ((fst (getNextDevIndex n numaNode) = Inl (NoFabricInterfaces numaNode))
      = (getNumDevices n numaNode = 0)) \<and>
   fst (GetDevice env heap e params) \<noteq> Panicked (NoFabricInterfaces y)"
proof -
  have "0 \<le> getNumDevices n numaNode" by (simp add: getNumDevices_def split: option.splits)
  then have "((\<exists>q. fst (getNextDevIndex n numaNode) = Inl q) = (getNumDevices n numaNode = 0)) \<and>
   ((fst (getNextDevIndex n numaNode) = Inl (NoFabricInterfaces numaNode))
      = (getNumDevices n numaNode = 0))"
    by (auto simp: getNextDevIndex_def Let_def getNumDevices_def)
  moreover have "fst (GetDevice env heap e params) \<noteq> Panicked (NoFabricInterfaces y)"
    using GetDevice_Panicked [of env heap e params "NoFabricInterfaces y" _ _ y]
    by (cases "GetDevice env heap e params") auto
  ultimately show ?thesis by simp
qed

text \<open>
  The cross-node cursor is a position of the list of populated nodes (or the inventory is
  empty) in an engine as \<open>newNUMAFabric\<close> builds it, whatever inventory it is then
  given, and every call of \<open>GetDevice\<close> that returns keeps it so.
\<close>

lemma cross_cursor_ok_new: "cross_cursor_ok (newNUMAFabric\<lparr>numaMap := m\<rparr>)"
  by (simp add: cross_cursor_ok_def newNUMAFabric_def)

lemma cross_cursor_ok_mod:
  assumes "numaMap n' = numaMap n" and "numaMap n \<noteq> []"
    and "currentNUMANode n' = c mod int (length (numaMap n))"
  shows "cross_cursor_ok n'"
proof -
  have "0 < int (length (numaMap n))" using assms(2) by simp
  then have "0 \<le> c mod int (length (numaMap n))" "c mod int (length (numaMap n)) < int (length (numaMap n))"
    by simp_all
  with assms(1,3) show ?thesis by (simp add: cross_cursor_ok_def)
qed

lemma cross_cursor_ok_GetDevice:
  assumes g: "GetDevice env heap (Some n) (Some ps) = (r, heap', Some n')"
    and c: "cross_cursor_ok n"
    and np: "\<forall>q. r \<noteq> Panicked q"
  shows "cross_cursor_ok n'"
proof (cases r)
  case (Panicked q)
  with np show ?thesis by simp
next
  case (Err e)
  from GetDevice_Err [OF g [unfolded Err]]
  consider "n' = n"
    | e1 n1 where "getDeviceFromNUMA env heap n (NUMANode ps) (DevClass ps) (Provider ps) = (Err e1, n1)"
        "findOnAnyNUMA env heap n1 (DevClass ps) (Provider ps) = (Err e, n')"
    by auto
  then show ?thesis
  proof cases
    case 1
    with c show ?thesis by simp
  next
    case 2
    note se = scan_Err [OF 2(1)]
    have nm: "numaMap n1 = numaMap n" using se(2) by (simp add: kept_def)
    have len: "length (getNUMANodes n1) = length (numaMap n)" by (simp add: getNUMANodes_def nm)
    from 2(2) have l: "findOnAnyNUMA_loop env heap (getNUMANodes n1) (DevClass ps) (Provider ps) 0 n1 =
        (Err e, n')" by (simp add: findOnAnyNUMA_def)
    note fe = find_Err [OF l]
    have nm': "numaMap n' = numaMap n" using fe nm by (simp add: kept_def)
    show ?thesis
    proof (cases "numaMap n = []")
      case True
      with fe len have "n' = n1" by simp
      with se(3) nm c show ?thesis by (simp add: cross_cursor_ok_def)
    next
      case False
      with fe len have "currentNUMANode n' =
          (currentNUMANode n1 + (int (length (numaMap n)) - int 0)) mod int (length (numaMap n))"
        by simp
      from cross_cursor_ok_mod [OF nm' False this] show ?thesis .
    qed
  qed
next
  case (Ok q)
  from GetDevice_Ok [OF g [unfolded Ok]] obtain p where
    o: "getDeviceFromNUMA env heap n (NUMANode ps) (DevClass ps) (Provider ps) = (Ok p, n') \<or>
       (\<exists>e n1. getDeviceFromNUMA env heap n (NUMANode ps) (DevClass ps) (Provider ps) = (Err e, n1) \<and>
          findOnAnyNUMA env heap n1 (DevClass ps) (Provider ps) = (Ok p, n'))"
    by auto
  then show ?thesis
  proof
    assume s: "getDeviceFromNUMA env heap n (NUMANode ps) (DevClass ps) (Provider ps) = (Ok p, n')"
    from scan_Ok(1,2) [OF s] c show ?thesis by (simp add: cross_cursor_ok_def kept_def)
  next
    assume "\<exists>e n1. getDeviceFromNUMA env heap n (NUMANode ps) (DevClass ps) (Provider ps) = (Err e, n1) \<and>
          findOnAnyNUMA env heap n1 (DevClass ps) (Provider ps) = (Ok p, n')"
    then obtain e n1 where
      s: "getDeviceFromNUMA env heap n (NUMANode ps) (DevClass ps) (Provider ps) = (Err e, n1)"
      and f: "findOnAnyNUMA env heap n1 (DevClass ps) (Provider ps) = (Ok p, n')"
      by blast
    note se = scan_Err [OF s]
    have nm: "numaMap n1 = numaMap n" using se(2) by (simp add: kept_def)
    have len: "length (getNUMANodes n1) = length (numaMap n)" by (simp add: getNUMANodes_def nm)
    from f have l: "findOnAnyNUMA_loop env heap (getNUMANodes n1) (DevClass ps) (Provider ps) 0 n1 =
        (Ok p, n')" by (simp add: findOnAnyNUMA_def)
    from find_Ok [OF l] obtain j n3 where fo: "0 + j < length (getNUMANodes n1)"
      "currentNUMANode n' = (currentNUMANode n1 + 1 + int j) mod int (length (getNUMANodes n1))"
      "kept env n1 n3"
      "getDeviceFromNUMA env heap n3 (ncand (getNUMANodes n1) (currentNUMANode n1) j)
         (DevClass ps) (Provider ps) = (Ok p, n')"
      by blast
    have nm': "numaMap n' = numaMap n" using scan_Ok(1) [OF fo(4)] fo(3) nm by (simp add: kept_def)
    have ne: "numaMap n \<noteq> []" using fo(1) len by auto
    from fo(2) have "currentNUMANode n' = (currentNUMANode n1 + 1 + int j) mod int (length (numaMap n))"
      by (simp add: len)
    from cross_cursor_ok_mod [OF nm' ne this] show ?thesis .
  qed
qed

subsection \<open>C10: a failed GetDevice leaves the cursors as they were\<close>

text \<open>
  C10. When \<open>GetDevice\<close> returns the error of \<open>FabricNotFoundErr\<close>, every node's
  round-robin cursor reads the same value as before the call, and so does the cross-node
  cursor, provided the cross-node cursor was a position of the list of populated nodes
  (or the inventory was empty). Each failed scan of a node has advanced its cursor once per
  device, a full wrap.
\<close>

theorem GetDevice_NotFound_restores_cursors:
  assumes "GetDevice env heap (Some n) (Some ps) = (Err (FabricNotFoundErr c), heap', Some n')"
    and "cross_cursor_ok n"
  shows "(\<forall>x. cursor n' x = cursor n x) \<and> currentNUMANode n' = currentNUMANode n"
proof -
  from GetDevice_Err [OF assms(1)] obtain e1 n1 where
    g: "getDeviceFromNUMA env heap n (NUMANode ps) (DevClass ps) (Provider ps) = (Err e1, n1)"
    and f: "findOnAnyNUMA env heap n1 (DevClass ps) (Provider ps) = (Err (FabricNotFoundErr c), n')"
    by auto
  note se = scan_Err [OF g]
  have nm: "numaMap n1 = numaMap n" using se(2) by (simp add: kept_def)
  let ?nodes = "getNUMANodes n1"
  have len: "length ?nodes = length (numaMap n)" by (simp add: getNUMANodes_def nm)
  from f have l: "findOnAnyNUMA_loop env heap ?nodes (DevClass ps) (Provider ps) 0 n1 =
      (Err (FabricNotFoundErr c), n')" by (simp add: findOnAnyNUMA_def)
  note fe = find_Err [OF l]
  have cs: "\<forall>x. cursor n' x = cursor n x" using fe se(4) by simp
  have "currentNUMANode n' = currentNUMANode n"
  proof (cases "0 < length ?nodes")
    case False
    with fe se(3) show ?thesis by simp
  next
    case True
    with fe have "currentNUMANode n' =
        (currentNUMANode n1 + (int (length ?nodes) - int 0)) mod int (length ?nodes)" by simp
    moreover from True assms(2) len have "0 \<le> currentNUMANode n"
      "currentNUMANode n < int (length ?nodes)" by (auto simp: cross_cursor_ok_def)
    ultimately show ?thesis using se(3) by simp
  qed
  with cs show ?thesis by simp
qed

theorem GetDevice_NotFound_restores_cursors_witness:
  "fst (GetDevice ex_env ex_heap10 (Some ex_fabric10) (Some (ex_params 0 2 ''P''))) =
      Err (FabricNotFoundErr 2) \<and>
   cross_cursor_ok ex_fabric10 \<and>
   cursor (the (snd (snd (GetDevice ex_env ex_heap10 (Some ex_fabric10) (Some (ex_params 0 2 ''P'')))))) 0 = 1 \<and>
   cursor (the (snd (snd (GetDevice ex_env ex_heap10 (Some ex_fabric10) (Some (ex_params 0 2 ''P'')))))) 1 = 0 \<and>
   currentNUMANode (the (snd (snd (GetDevice ex_env ex_heap10 (Some ex_fabric10) (Some (ex_params 0 2 ''P'')))))) = 1"
proof -
  let ?G = "GetDevice ex_env ex_heap10 (Some ex_fabric10) (Some (ex_params 0 2 ''P''))"
  have g: "?G = (Err (FabricNotFoundErr 2), fst (snd ?G), Some (the (snd (snd ?G))))"
    by (simp add: eval_defs ex_defs ex_heap10_def ex_fabric10_def)
  have c: "cross_cursor_ok ex_fabric10"
    by (simp add: cross_cursor_ok_def ex_fabric10_def ex_defs)
  have i: "cursor ex_fabric10 0 = 1" "cursor ex_fabric10 1 = 0" "currentNUMANode ex_fabric10 = 1"
    by (simp_all add: cursor_def ex_fabric10_def ex_defs)
  have r: "fst ?G = Err (FabricNotFoundErr 2)" by (subst g) simp
  from GetDevice_NotFound_restores_cursors [OF g c]
  have "cursor (the (snd (snd ?G))) 0 = cursor ex_fabric10 0"
    "cursor (the (snd (snd ?G))) 1 = cursor ex_fabric10 1"
    "currentNUMANode (the (snd (snd ?G))) = currentNUMANode ex_fabric10"
    by simp_all
  with r c i show ?thesis by simp
qed

lemma GetDevice_Err_kind:
  assumes "GetDevice env heap e params = (Err err, heap', e')"
  shows "err = ErrNilNUMAFabric \<or> err = ErrNilFabricIfaceParams \<or> err = ErrProviderRequired \<or>
     (\<exists>ps. params = Some ps \<and> err = FabricNotFoundErr (DevClass ps))"
proof (cases e)
  case None
  with assms show ?thesis by (simp add: GetDevice_def)
next
  case (Some n)
  show ?thesis
  proof (cases params)
    case None
    with assms Some show ?thesis by (simp add: GetDevice_def)
  next
    case ps: (Some ps)
    from GetDevice_Err [OF assms [unfolded Some ps]] show ?thesis
    proof (elim conjE disjE exE)
      assume "err = ErrProviderRequired"
      then show ?thesis by simp
    next
      fix e1 n1 n'
      assume "findOnAnyNUMA env heap n1 (DevClass ps) (Provider ps) = (Err err, n')"
      then have "err = FabricNotFoundErr (DevClass ps)"
        using find_Err [of env heap "getNUMANodes n1" "DevClass ps" "Provider ps" 0 n1 err n']
        by (simp add: findOnAnyNUMA_def)
      with ps show ?thesis by simp
    qed
  qed
qed

lemma findOnAnyNUMA_Err:
  "findOnAnyNUMA env heap n c p = (Err e, n') \<Longrightarrow> e = FabricNotFoundErr c"
  using find_Err [of env heap "getNUMANodes n" c p 0 n e n'] by (simp add: findOnAnyNUMA_def)

lemma GetDevice_Ok_eligible:
  assumes "GetDevice env heap (Some n) (Some ps) = (Ok r, heap', n'')"
  shows "\<exists>x. has_eligible env heap n (DevClass ps) (Provider ps) x"
proof -
  from GetDevice_Ok [OF assms] obtain p n' where
    o: "getDeviceFromNUMA env heap n (NUMANode ps) (DevClass ps) (Provider ps) = (Ok p, n') \<or>
       (\<exists>e n1. getDeviceFromNUMA env heap n (NUMANode ps) (DevClass ps) (Provider ps) = (Err e, n1) \<and>
          findOnAnyNUMA env heap n1 (DevClass ps) (Provider ps) = (Ok p, n'))"
    by blast
  then show ?thesis
  proof
    assume "getDeviceFromNUMA env heap n (NUMANode ps) (DevClass ps) (Provider ps) = (Ok p, n')"
    from scan_Ok_first [OF this] show ?thesis by (auto simp: has_eligible_first)
  next
    assume "\<exists>e n1. getDeviceFromNUMA env heap n (NUMANode ps) (DevClass ps) (Provider ps) = (Err e, n1) \<and>
          findOnAnyNUMA env heap n1 (DevClass ps) (Provider ps) = (Ok p, n')"
    then obtain e n1 where
      g: "getDeviceFromNUMA env heap n (NUMANode ps) (DevClass ps) (Provider ps) = (Err e, n1)"
      and f: "findOnAnyNUMA_loop env heap (getNUMANodes n1) (DevClass ps) (Provider ps) 0 n1 = (Ok p, n')"
      by (auto simp: findOnAnyNUMA_def)
    from find_Ok [OF f] obtain j n3 where k: "kept env n1 n3"
      and s: "getDeviceFromNUMA env heap n3
          (ncand (getNUMANodes n1) (currentNUMANode n1) j) (DevClass ps) (Provider ps) = (Ok p, n')"
      by blast
    have "kept env n n3" using scan_Err(2) [OF g] k by (rule kept_trans)
    from has_eligible_kept [OF this, of heap "DevClass ps" "Provider ps"
        "ncand (getNUMANodes n1) (currentNUMANode n1) j"] scan_Ok_first [OF s]
    have "has_eligible env heap n (DevClass ps) (Provider ps)
        (ncand (getNUMANodes n1) (currentNUMANode n1) j)"
      by (simp add: has_eligible_first)
    then show ?thesis ..
  qed
qed

lemma not_live_skip:
  assumes d: "map_of (numaMap n) node = Some devs" and lt: "checked < length devs"
    and c: "0 \<le> cursor n node" "cursor n node < int (length devs)"
    and v: "deref heap (devs ! nat (cursor n node)) = Some v"
    and nn: "validator env n (Name v) \<noteq> Inr None" and nl: "\<not> live env n (Name v)"
  shows "\<exists>n1. kept env n n1 \<and> cursor n1 node = (cursor n node + 1) mod int (length devs) \<and>
          getDeviceFromNUMA_loop env heap node cls prov checked n =
          getDeviceFromNUMA_loop env heap node cls prov (Suc checked) n1"
proof -
  let ?p = "devs ! nat (cursor n node)"
  obtain s n1 where b: "getDeviceFromNUMA_body env heap n node cls prov = (s, n1)"
    by (cases "getDeviceFromNUMA_body env heap n node cls prov")
  note bc = body_cases [OF b]
  have "valid_dev env heap n ?p" using v nn by (simp add: valid_dev_def)
  from body_at_cursor [OF d c this b] have na: "\<forall>q. s \<noteq> Abort q" by simp
  have el: "\<not> eligible_at env heap n cls prov ?p" using v nl by (simp add: eligible_at_def eligible_def)
  from bc(5) [OF na] d el have s: "s = Continue"
    and c1: "cursor n1 node = (cursor n node + 1) mod int (length devs)" by auto
  have "int checked < getNumDevices n node" using d lt by (simp add: getNumDevices_def)
  from loop_step [OF this b] s bc(1) c1 show ?thesis by auto
qed

subsection \<open>C3: a failed validation skips the candidate\<close>

text \<open>
  C3. In the loop of \<open>getDeviceFromNUMA\<close>, when the candidate at the cursor is a device for
  which the validator returns an error or no address that is assigned and specified, the
  iteration ends without a result and the loop goes on with the next candidate, the cursor
  advanced by one. An error that \<open>GetDevice\<close> returns is never the error of a validation.
  When no device of any node is eligible, in a well-formed engine and with a provider given,
  \<open>GetDevice\<close> returns the error of \<open>FabricNotFoundErr\<close> for the requested class.
\<close>

theorem liveness_failure_is_skip:
  "(map_of (numaMap n) node = Some devs \<and> checked < length devs \<and>
    0 \<le> cursor n node \<and> cursor n node < int (length devs) \<and>
    deref heap (devs ! nat (cursor n node)) = Some v \<and>
    validator env n (Name v) \<noteq> Inr None \<and> \<not> live env n (Name v)
     \<longrightarrow> (\<exists>n1. kept env n n1 \<and> cursor n1 node = (cursor n node + 1) mod int (length devs) \<and>
          getDeviceFromNUMA_loop env heap node cls prov checked n =
          getDeviceFromNUMA_loop env heap node cls prov (Suc checked) n1)) \<and>
   (GetDevice env heap e params = (Err err, heap', e')
     \<longrightarrow> err \<noteq> ErrNoIPAddresses name \<and> err \<noteq> OSError k) \<and>
   (well_formed env heap n \<and> Provider ps \<noteq> [] \<and>
    (\<forall>x. \<not> has_eligible env heap n (DevClass ps) (Provider ps) x)
     \<longrightarrow> fst (GetDevice env heap (Some n) (Some ps)) = Err (FabricNotFoundErr (DevClass ps)))"
proof (intro conjI impI)
  assume "map_of (numaMap n) node = Some devs \<and> checked < length devs \<and>
    0 \<le> cursor n node \<and> cursor n node < int (length devs) \<and>
    deref heap (devs ! nat (cursor n node)) = Some v \<and>
    validator env n (Name v) \<noteq> Inr None \<and> \<not> live env n (Name v)"
  then show "\<exists>n1. kept env n n1 \<and> cursor n1 node = (cursor n node + 1) mod int (length devs) \<and>
          getDeviceFromNUMA_loop env heap node cls prov checked n =
          getDeviceFromNUMA_loop env heap node cls prov (Suc checked) n1"
    using not_live_skip by blast
next
  assume a: "GetDevice env heap e params = (Err err, heap', e')"
  from GetDevice_Err_kind [OF a] show "err \<noteq> ErrNoIPAddresses name" by auto
  from GetDevice_Err_kind [OF a] show "err \<noteq> OSError k" by auto
next
  assume a: "well_formed env heap n \<and> Provider ps \<noteq> [] \<and>
    (\<forall>x. \<not> has_eligible env heap n (DevClass ps) (Provider ps) x)"
  obtain r heap' e' where g: "GetDevice env heap (Some n) (Some ps) = (r, heap', e')"
    by (cases "GetDevice env heap (Some n) (Some ps)")
  show "fst (GetDevice env heap (Some n) (Some ps)) = Err (FabricNotFoundErr (DevClass ps))"
  proof (cases r)
    case (Panicked q)
    with g GetDevice_no_panic [of env heap n "Some ps" q] a show ?thesis by simp
  next
    case (Err err)
    from GetDevice_Err [OF g [unfolded Err]] a
    have "err = FabricNotFoundErr (DevClass ps)" by (auto dest: findOnAnyNUMA_Err)
    with g Err show ?thesis by simp
  next
    case (Ok p)
    from GetDevice_Ok_eligible [OF g [unfolded Ok]] a show ?thesis by simp
  qed
qed

theorem liveness_failure_is_skip_witness:
  "\<not> live ex_env (ex_fabric [(0, [Some 0, Some 1])]) ''down0'' \<and>
   (\<exists>n1. cursor n1 0 = 1 \<and>
      getDeviceFromNUMA_loop ex_env ex_heap3 0 1 ''P'' 0 (ex_fabric [(0, [Some 0, Some 1])]) =
      getDeviceFromNUMA_loop ex_env ex_heap3 0 1 ''P'' (Suc 0) n1) \<and>
   fst (GetDevice ex_env ex_heap3 (Some (ex_fabric [(0, [Some 0, Some 1])]))
      (Some (ex_params 0 1 ''P''))) = Ok (Some 2) \<and>
   fst (snd (GetDevice ex_env ex_heap3 (Some (ex_fabric [(0, [Some 0, Some 1])]))
      (Some (ex_params 0 1 ''P'')))) ! 2 = ex_dev ''eth1'' 1 [''P''] \<and>
   well_formed ex_env ex_heap3 (ex_fabric [(0, [Some 0])]) \<and>
   (\<forall>x. \<not> has_eligible ex_env ex_heap3 (ex_fabric [(0, [Some 0])]) 1 ''P'' x) \<and>
   fst (GetDevice ex_env ex_heap3 (Some (ex_fabric [(0, [Some 0])])) (Some (ex_params 0 1 ''P'')))
     = Err (FabricNotFoundErr 1)"
proof -
  let ?n = "ex_fabric [(0, [Some 0, Some 1])]"
  let ?m = "ex_fabric [(0, [Some 0])]"
  let ?ps = "ex_params 0 1 ''P''"
  have nl: "\<not> live ex_env ?n ''down0''" by (simp add: spec_defs ex_defs)
  have h1: "map_of (numaMap ?n) 0 = Some [Some 0, Some 1] \<and> 0 < length [Some 0, Some (1::nat)] \<and>
    0 \<le> cursor ?n 0 \<and> cursor ?n 0 < int (length [Some 0, Some (1::nat)]) \<and>
    deref ex_heap3 ([Some 0, Some 1] ! nat (cursor ?n 0)) = Some (ex_dev ''down0'' 1 [''P'']) \<and>
    validator ex_env ?n (Name (ex_dev ''down0'' 1 [''P''])) \<noteq> Inr None \<and>
    \<not> live ex_env ?n (Name (ex_dev ''down0'' 1 [''P'']))"
    by (simp add: spec_defs ex_defs ex_heap3_def deref_def)
  have wf: "well_formed ex_env ex_heap3 ?m"
    by (simp add: spec_defs ex_defs ex_heap3_def deref_def)
  have ne: "\<forall>x. \<not> has_eligible ex_env ex_heap3 ?m 1 ''P'' x"
    by (simp add: spec_defs ex_defs ex_heap3_def deref_def ShouldIgnore_def)
  have h3: "well_formed ex_env ex_heap3 ?m \<and> Provider ?ps \<noteq> [] \<and>
    (\<forall>x. \<not> has_eligible ex_env ex_heap3 ?m (DevClass ?ps) (Provider ?ps) x)"
    using wf ne by (simp add: ex_defs)
  note t1 = liveness_failure_is_skip [where n = ?n and node = 0 and devs = "[Some 0, Some 1]"
      and checked = 0 and heap = ex_heap3 and v = "ex_dev ''down0'' 1 [''P'']" and env = ex_env
      and cls = 1 and prov = "''P''"]
  note t3 = liveness_failure_is_skip [where n = ?m and heap = ex_heap3 and env = ex_env
      and ps = ?ps]
  from t1 h1 have a: "\<exists>n1. kept ex_env ?n n1 \<and> cursor n1 0 = (cursor ?n 0 + 1) mod int (length [Some 0, Some (1::nat)]) \<and>
      getDeviceFromNUMA_loop ex_env ex_heap3 0 1 ''P'' 0 ?n =
      getDeviceFromNUMA_loop ex_env ex_heap3 0 1 ''P'' (Suc 0) n1"
    by blast
  have c0: "cursor ?n 0 = 0" by (simp add: spec_defs ex_defs)
  from a c0 have a': "\<exists>n1. cursor n1 0 = 1 \<and>
      getDeviceFromNUMA_loop ex_env ex_heap3 0 1 ''P'' 0 ?n =
      getDeviceFromNUMA_loop ex_env ex_heap3 0 1 ''P'' (Suc 0) n1"
    by auto
  from t3 h3 have b: "fst (GetDevice ex_env ex_heap3 (Some ?m) (Some ?ps)) = Err (FabricNotFoundErr 1)"
    by (simp add: ex_defs)
  have g: "fst (GetDevice ex_env ex_heap3 (Some ?n) (Some ?ps)) = Ok (Some 2)"
    "fst (snd (GetDevice ex_env ex_heap3 (Some ?n) (Some ?ps))) ! 2 = ex_dev ''eth1'' 1 [''P'']"
    by (simp_all add: eval_defs ex_defs ex_heap3_def)
  from nl a' g wf ne b show ?thesis by simp
qed

lemma GetDevice_at_cursor:
  assumes d: "map_of (numaMap n) (NUMANode ps) = Some devs"
    and c: "0 \<le> cursor n (NUMANode ps)" "cursor n (NUMANode ps) < int (length devs)"
    and v: "deref heap (devs ! nat (cursor n (NUMANode ps))) = Some v"
    and e: "eligible env n (DevClass ps) (Provider ps) v"
    and pr: "Provider ps \<noteq> []"
  shows "\<exists>n'. GetDevice env heap (Some n) (Some ps) = (Ok (Some (length heap)), heap @ [v], Some n') \<and>
     kept env n n' \<and> currentNUMANode n' = currentNUMANode n \<and>
     (\<forall>x. x \<noteq> NUMANode ps \<longrightarrow> cursor n' x = cursor n x) \<and>
     cursor n' (NUMANode ps) = (cursor n (NUMANode ps) + 1) mod int (length devs)"
proof -
  from scan_at_cursor [OF d c v e] obtain n' where
    g: "getDeviceFromNUMA env heap n (NUMANode ps) (DevClass ps) (Provider ps) =
          (Ok (devs ! nat (cursor n (NUMANode ps))), n')"
    and r: "kept env n n'" "currentNUMANode n' = currentNUMANode n"
      "\<forall>x. x \<noteq> NUMANode ps \<longrightarrow> cursor n' x = cursor n x"
      "cursor n' (NUMANode ps) = (cursor n (NUMANode ps) + 1) mod int (length devs)"
    by blast
  have "GetDevice env heap (Some n) (Some ps) = (Ok (Some (length heap)), heap @ [v], Some n')"
    using pr g copyFI_Some [OF v] by (simp add: GetDevice_def)
  with r show ?thesis by blast
qed

subsection \<open>C6: what a successful GetDevice changes\<close>

text \<open>
  C6, as amended. A successful \<open>GetDevice\<close> leaves the inventory, the filter, the objects
  of the store and the function the engine validates with as they were; a validation
  function that was set stays the same function, one that was nil may have been replaced by
  the default lookup. When the requested node has an eligible device, the cross-node cursor
  is unchanged and every cursor but the requested node's reads as before; otherwise the
  cross-node cursor is the position of a populated node and every cursor but that node's
  reads as before.
\<close>

theorem GetDevice_frame:
  assumes "GetDevice env heap (Some n) (Some ps) = (Ok r, heap', Some n')"
  shows "numaMap n' = numaMap n \<and> ifaceFilter n' = ifaceFilter n \<and>
     validator env n' = validator env n \<and>
     (getAddrInterface n \<noteq> None \<longrightarrow> getAddrInterface n' = getAddrInterface n) \<and>
     take (length heap) heap' = heap \<and>
     (if first_eligible env heap n (DevClass ps) (Provider ps) (NUMANode ps) \<noteq> None
      then currentNUMANode n' = currentNUMANode n \<and>
           (\<forall>x. x \<noteq> NUMANode ps \<longrightarrow> cursor n' x = cursor n x)
      else 0 \<le> currentNUMANode n' \<and> currentNUMANode n' < int (length (getNUMANodes n)) \<and>
           (\<forall>x. x \<noteq> getNUMANodes n ! nat (currentNUMANode n') \<longrightarrow> cursor n' x = cursor n x))"
proof -
  from GetDevice_Ok [OF assms] obtain p v where hv: "heap' = heap @ [v]"
    and o: "getDeviceFromNUMA env heap n (NUMANode ps) (DevClass ps) (Provider ps) = (Ok p, n') \<or>
       (\<exists>e n1. getDeviceFromNUMA env heap n (NUMANode ps) (DevClass ps) (Provider ps) = (Err e, n1) \<and>
          findOnAnyNUMA env heap n1 (DevClass ps) (Provider ps) = (Ok p, n'))"
    by auto
  from o have "kept env n n' \<and>
     (if first_eligible env heap n (DevClass ps) (Provider ps) (NUMANode ps) \<noteq> None
      then currentNUMANode n' = currentNUMANode n \<and>
           (\<forall>x. x \<noteq> NUMANode ps \<longrightarrow> cursor n' x = cursor n x)
      else 0 \<le> currentNUMANode n' \<and> currentNUMANode n' < int (length (getNUMANodes n)) \<and>
           (\<forall>x. x \<noteq> getNUMANodes n ! nat (currentNUMANode n') \<longrightarrow> cursor n' x = cursor n x))"
  proof
    assume g: "getDeviceFromNUMA env heap n (NUMANode ps) (DevClass ps) (Provider ps) = (Ok p, n')"
    from scan_Ok(1,2,3) [OF g] scan_Ok_first [OF g] show ?thesis by simp
  next
    assume "\<exists>e n1. getDeviceFromNUMA env heap n (NUMANode ps) (DevClass ps) (Provider ps) = (Err e, n1) \<and>
          findOnAnyNUMA env heap n1 (DevClass ps) (Provider ps) = (Ok p, n')"
    then obtain e n1 where
      g: "getDeviceFromNUMA env heap n (NUMANode ps) (DevClass ps) (Provider ps) = (Err e, n1)"
      and f: "findOnAnyNUMA_loop env heap (getNUMANodes n1) (DevClass ps) (Provider ps) 0 n1 = (Ok p, n')"
      by (auto simp: findOnAnyNUMA_def)
    note se = scan_Err [OF g]
    have nodes: "getNUMANodes n1 = getNUMANodes n" using se(2) by (simp add: getNUMANodes_def kept_def)
    let ?N = "int (length (getNUMANodes n))"
    from find_Ok [OF f] nodes obtain j n3 where j: "j < length (getNUMANodes n)"
      and cn: "currentNUMANode n' = (currentNUMANode n1 + 1 + int j) mod ?N"
      and k: "kept env n1 n3" and cs: "\<forall>x. cursor n3 x = cursor n1 x"
      and s: "getDeviceFromNUMA env heap n3
          (ncand (getNUMANodes n) (currentNUMANode n1) j) (DevClass ps) (Provider ps) = (Ok p, n')"
      by auto
    have N: "0 < ?N" using j by (cases "getNUMANodes n") simp_all
    have rng: "0 \<le> currentNUMANode n'" "currentNUMANode n' < ?N" unfolding cn using N by simp_all
    have sel: "ncand (getNUMANodes n) (currentNUMANode n1) j = getNUMANodes n ! nat (currentNUMANode n')"
      by (simp add: ncand_def cn)
    have kk: "kept env n n'" using se(2) k scan_Ok(1) [OF s] by (blast intro: kept_trans)
    have "cursor n' x = cursor n x" if "x \<noteq> getNUMANodes n ! nat (currentNUMANode n')" for x
      using scan_Ok(3) [OF s, of x] that sel cs se(4) [of x] by simp
    with kk rng scan_Err_first [OF g] show ?thesis by simp
  qed
  with hv show ?thesis by (simp add: kept_def)
qed

theorem GetDevice_frame_witness:
  "fst (GetDevice ex_env ex_heapY (Some ex_fabricY) (Some (ex_params 0 2 ''P''))) = Ok (Some 3) \<and>
   numaMap (the (snd (snd (GetDevice ex_env ex_heapY (Some ex_fabricY) (Some (ex_params 0 2 ''P''))))))
     = numaMap ex_fabricY \<and>
   take 3 (fst (snd (GetDevice ex_env ex_heapY (Some ex_fabricY) (Some (ex_params 0 2 ''P'')))))
     = ex_heapY \<and>
   currentNUMANode (the (snd (snd (GetDevice ex_env ex_heapY (Some ex_fabricY)
     (Some (ex_params 0 2 ''P'')))))) = 1 \<and>
   cursor (the (snd (snd (GetDevice ex_env ex_heapY (Some ex_fabricY)
     (Some (ex_params 0 2 ''P'')))))) 0 = cursor ex_fabricY 0 \<and>
   cursor (the (snd (snd (GetDevice ex_env ex_heapY (Some ex_fabricY)
     (Some (ex_params 0 2 ''P'')))))) 2 = cursor ex_fabricY 2"
proof -
  let ?G = "GetDevice ex_env ex_heapY (Some ex_fabricY) (Some (ex_params 0 2 ''P''))"
  have g: "?G = (Ok (Some 3), fst (snd ?G), Some (the (snd (snd ?G))))"
    by (simp add: eval_defs ex_defs ex_heapY_def ex_fabricY_def)
  have r: "fst ?G = Ok (Some 3)" by (subst g) simp
  have c: "currentNUMANode (the (snd (snd ?G))) = 1"
    by (simp add: eval_defs ex_defs ex_heapY_def ex_fabricY_def)
  have fe: "first_eligible ex_env ex_heapY ex_fabricY (DevClass (ex_params 0 2 ''P''))
      (Provider (ex_params 0 2 ''P'')) (NUMANode (ex_params 0 2 ''P'')) = None"
    by (simp add: spec_defs ex_defs ex_heapY_def ex_fabricY_def deref_def)
  have nodes: "getNUMANodes ex_fabricY = [0, 1, 2]"
    by (simp add: getNUMANodes_def ex_fabricY_def ex_defs)
  have l: "length ex_heapY = 3" by (simp add: ex_heapY_def)
  from GetDevice_frame [OF g] fe c nodes l
  have "numaMap (the (snd (snd ?G))) = numaMap ex_fabricY"
    "take 3 (fst (snd ?G)) = ex_heapY"
    "cursor (the (snd (snd ?G))) 0 = cursor ex_fabricY 0"
    "cursor (the (snd (snd ?G))) 2 = cursor ex_fabricY 2"
    by simp_all
  with r c show ?thesis by simp
qed

text \<open>
  C6 as first stated also listed the validation function among the components that
  the call leaves unchanged. In an engine as \<open>newNUMAFabric\<close> builds it the function is
  nil, and after the first successful call it is the default lookup.
\<close>

theorem GetDevice_frame_counterexample:
  "fst (GetDevice ex_env ex_heapY (Some ex_fabricY) (Some (ex_params 0 1 ''P''))) = Ok (Some 3) \<and>
   getAddrInterface ex_fabricY = None \<and>
   getAddrInterface (the (snd (snd (GetDevice ex_env ex_heapY (Some ex_fabricY)
      (Some (ex_params 0 1 ''P'')))))) = Some (InterfaceByName ex_env) \<and>
   getAddrInterface (the (snd (snd (GetDevice ex_env ex_heapY (Some ex_fabricY)
      (Some (ex_params 0 1 ''P'')))))) \<noteq> getAddrInterface ex_fabricY"
  by (simp add: eval_defs ex_defs ex_heapY_def ex_fabricY_def)

lemma first_eligible_kept:
  assumes "kept env n n'" "cursor n' x = cursor n x"
  shows "first_eligible env heap n' cls prov x = first_eligible env heap n cls prov x"
proof -
  have "numaMap n' = numaMap n" using assms(1) by (simp add: kept_def)
  then have "candidates n' x = candidates n x" using assms(2)
    by (simp add: candidates_def split: option.splits)
  moreover have "eligible_at env heap n' cls prov = eligible_at env heap n cls prov"
    using eligible_at_kept [OF assms(1)] by (rule ext)
  ultimately show ?thesis by (simp add: first_eligible_def)
qed

lemma getNUMANodes_facts:
  "sorted (getNUMANodes n)" "set (getNUMANodes n) = fst ` set (numaMap n)"
  "length (getNUMANodes n) = length (numaMap n)"
  "distinct (map fst (numaMap n)) \<Longrightarrow> distinct (getNUMANodes n)"
  by (simp_all add: getNUMANodes_def)

lemma fallback_order_length: "length (fallback_order n) = length (getNUMANodes n)"
  by (simp add: fallback_order_def)

lemma fallback_order_nth:
  "j < length (getNUMANodes n) \<Longrightarrow>
     fallback_order n ! j = ncand (getNUMANodes n) (currentNUMANode n) j"
  by (simp add: fallback_order_def ncand_rotate)

lemma fallback_Err:
  assumes g: "getDeviceFromNUMA env heap n x0 cls prov = (Err e, n1)"
    and f: "findOnAnyNUMA env heap n1 cls prov = (Err e', n')"
  shows "find (has_eligible env heap n cls prov) (fallback_order n) = None"
proof -
  note se = scan_Err [OF g]
  have nodes: "getNUMANodes n1 = getNUMANodes n" using se(2) by (simp add: getNUMANodes_def kept_def)
  from f nodes have l: "findOnAnyNUMA_loop env heap (getNUMANodes n) cls prov 0 n1 = (Err e', n')"
    by (simp add: findOnAnyNUMA_def)
  have "\<not> has_eligible env heap n cls prov x" if "x \<in> set (fallback_order n)" for x
  proof -
    from that obtain j where j: "j < length (getNUMANodes n)" "x = fallback_order n ! j"
      unfolding in_set_conv_nth fallback_order_length by blast
    with find_Err [OF l] se(3) have "\<not> has_eligible env heap n1 cls prov (ncand (getNUMANodes n) (currentNUMANode n) j)"
      by (auto split: if_splits)
    then show ?thesis using j fallback_order_nth [OF j(1)]
      by (simp add: has_eligible_kept [OF se(2)])
  qed
  then show ?thesis by (simp add: find_None_iff)
qed

lemma fallback_Ok:
  assumes g: "getDeviceFromNUMA env heap n x0 cls prov = (Err e, n1)"
    and f: "findOnAnyNUMA env heap n1 cls prov = (Ok p, n')"
  shows "\<exists>x. find (has_eligible env heap n cls prov) (fallback_order n) = Some x \<and>
     first_eligible env heap n cls prov x = Some p \<and>
     0 \<le> currentNUMANode n' \<and> currentNUMANode n' < int (length (getNUMANodes n)) \<and>
     getNUMANodes n ! nat (currentNUMANode n') = x"
proof -
  note se = scan_Err [OF g]
  have nodes: "getNUMANodes n1 = getNUMANodes n" using se(2) by (simp add: getNUMANodes_def kept_def)
  let ?nodes = "getNUMANodes n"
  let ?N = "int (length ?nodes)"
  let ?c = "currentNUMANode n"
  from f nodes have l: "findOnAnyNUMA_loop env heap ?nodes cls prov 0 n1 = (Ok p, n')"
    by (simp add: findOnAnyNUMA_def)
  from find_Ok [OF l] se(3) obtain j n3 where j: "j < length ?nodes"
    and cn: "currentNUMANode n' = (?c + 1 + int j) mod ?N"
    and ne: "\<forall>j'<j. \<not> has_eligible env heap n1 cls prov (ncand ?nodes ?c j')"
    and k: "kept env n1 n3" and cs: "\<forall>x. cursor n3 x = cursor n1 x"
    and s: "getDeviceFromNUMA env heap n3 (ncand ?nodes ?c j) cls prov = (Ok p, n')"
    by auto
  let ?x = "ncand ?nodes ?c j"
  have N: "0 < ?N" using j by (cases ?nodes) simp_all
  have rng: "0 \<le> currentNUMANode n'" "currentNUMANode n' < ?N" unfolding cn using N by simp_all
  have sel: "?nodes ! nat (currentNUMANode n') = ?x" by (simp add: ncand_def cn)
  have k3: "kept env n n3" using se(2) k by (rule kept_trans)
  have c3: "cursor n3 ?x = cursor n ?x" using cs se(4) by simp
  have fe: "first_eligible env heap n cls prov ?x = Some p"
    using scan_Ok_first [OF s] first_eligible_kept [OF k3 c3] by simp
  have "find (has_eligible env heap n cls prov) (fallback_order n) = Some (fallback_order n ! j)"
  proof (rule find_nth)
    show "j < length (fallback_order n)" using j by (simp add: fallback_order_def)
    show "has_eligible env heap n cls prov (fallback_order n ! j)"
      using fe fallback_order_nth [OF j] by (simp add: has_eligible_first)
    show "\<forall>i<j. \<not> has_eligible env heap n cls prov (fallback_order n ! i)"
    proof (intro allI impI)
      fix i assume i: "i < j"
      then have "i < length ?nodes" using j by simp
      from fallback_order_nth [OF this] ne i show
        "\<not> has_eligible env heap n cls prov (fallback_order n ! i)"
        by (simp add: has_eligible_kept [OF se(2)])
    qed
  qed
  with fallback_order_nth [OF j] fe rng sel show ?thesis by simp
qed

subsection \<open>C2: the cross-node fallback\<close>

text \<open>
  C2, as amended. \<open>getNUMANodes\<close> lists the populated node ids in ascending order, each
  once. When the requested node has no eligible device, \<open>GetDevice\<close> on a well-formed engine
  goes through that list once, starting one position past the cross-node cursor and wrapping
  around: it returns a copy of the first eligible device (from the node's own cursor on) of the
  first node in that order that has one, and sets the cross-node cursor to the position of
  that node in the list; when no node has one, it returns the error of
  \<open>FabricNotFoundErr\<close>. The cross-node cursor is a position in the list, not a node id.
\<close>

theorem GetDevice_fallback:
  assumes "well_formed env heap n" and "Provider ps \<noteq> []"
    and "first_eligible env heap n (DevClass ps) (Provider ps) (NUMANode ps) = None"
    and "GetDevice env heap (Some n) (Some ps) = (r, heap', Some n')"
  shows "sorted (getNUMANodes n) \<and> distinct (getNUMANodes n) \<and>
     set (getNUMANodes n) = fst ` set (numaMap n) \<and>
     fallback_order n =
       rotate (nat ((currentNUMANode n + 1) mod int (length (getNUMANodes n)))) (getNUMANodes n) \<and>
     (case find (has_eligible env heap n (DevClass ps) (Provider ps)) (fallback_order n) of
        None \<Rightarrow> r = Err (FabricNotFoundErr (DevClass ps)) \<and> heap' = heap
      | Some x \<Rightarrow>
          (\<exists>p v. first_eligible env heap n (DevClass ps) (Provider ps) x = Some p \<and>
             deref heap p = Some v \<and> r = Ok (Some (length heap)) \<and> heap' = heap @ [v] \<and>
             0 \<le> currentNUMANode n' \<and> currentNUMANode n' < int (length (getNUMANodes n)) \<and>
             getNUMANodes n ! nat (currentNUMANode n') = x))"
proof -
  have a: "sorted (getNUMANodes n) \<and> distinct (getNUMANodes n) \<and>
     set (getNUMANodes n) = fst ` set (numaMap n)"
    using getNUMANodes_facts [of n] assms(1) by (simp add: well_formed_def)
  have b: "case find (has_eligible env heap n (DevClass ps) (Provider ps)) (fallback_order n) of
        None \<Rightarrow> r = Err (FabricNotFoundErr (DevClass ps)) \<and> heap' = heap
      | Some x \<Rightarrow>
          (\<exists>p v. first_eligible env heap n (DevClass ps) (Provider ps) x = Some p \<and>
             deref heap p = Some v \<and> r = Ok (Some (length heap)) \<and> heap' = heap @ [v] \<and>
             0 \<le> currentNUMANode n' \<and> currentNUMANode n' < int (length (getNUMANodes n)) \<and>
             getNUMANodes n ! nat (currentNUMANode n') = x)"
  proof (cases r)
    case (Panicked q)
    with assms(4) GetDevice_no_panic [OF assms(1), of "Some ps" q] show ?thesis by simp
  next
    case (Err e)
    from GetDevice_Err [OF assms(4) [unfolded Err]] assms(2) obtain e1 n1 where
      h: "heap' = heap"
      and g: "getDeviceFromNUMA env heap n (NUMANode ps) (DevClass ps) (Provider ps) = (Err e1, n1)"
      and f: "findOnAnyNUMA env heap n1 (DevClass ps) (Provider ps) = (Err e, n')"
      by auto
    from fallback_Err [OF g f] findOnAnyNUMA_Err [OF f] h Err show ?thesis by simp
  next
    case (Ok q)
    from GetDevice_Ok [OF assms(4) [unfolded Ok]] obtain p v where
      v: "deref heap p = Some v" "q = Some (length heap)" "heap' = heap @ [v]"
      and o: "getDeviceFromNUMA env heap n (NUMANode ps) (DevClass ps) (Provider ps) = (Ok p, n') \<or>
       (\<exists>e n1. getDeviceFromNUMA env heap n (NUMANode ps) (DevClass ps) (Provider ps) = (Err e, n1) \<and>
          findOnAnyNUMA env heap n1 (DevClass ps) (Provider ps) = (Ok p, n'))"
      by auto
    from o scan_Ok_first assms(3) obtain e n1 where
      g: "getDeviceFromNUMA env heap n (NUMANode ps) (DevClass ps) (Provider ps) = (Err e, n1)"
      and f: "findOnAnyNUMA env heap n1 (DevClass ps) (Provider ps) = (Ok p, n')"
      by fastforce
    from fallback_Ok [OF g f] v Ok show ?thesis by auto
  qed
  from a b show ?thesis by (simp add: fallback_order_def)
qed

theorem GetDevice_fallback_witness:
  "well_formed ex_env ex_heapY ex_fabricY \<and>
   first_eligible ex_env ex_heapY ex_fabricY 2 ''P'' 0 = None \<and>
   fallback_order ex_fabricY = [1, 2, 0] \<and>
   find (has_eligible ex_env ex_heapY ex_fabricY 2 ''P'') (fallback_order ex_fabricY) = Some 1 \<and>
   fst (GetDevice ex_env ex_heapY (Some ex_fabricY) (Some (ex_params 0 2 ''P''))) = Ok (Some 3) \<and>
   getNUMANodes ex_fabricY ! nat (currentNUMANode (the (snd (snd
     (GetDevice ex_env ex_heapY (Some ex_fabricY) (Some (ex_params 0 2 ''P''))))))) = 1 \<and>
   fst (GetDevice_times ex_env (ex_params 0 2 ''P'') (Suc (Suc 0)) ex_heapY (Some ex_fabricY))
     = [Ok (Some 3), Ok (Some 4)] \<and>
   drop 3 (fst (snd (GetDevice_times ex_env (ex_params 0 2 ''P'') (Suc (Suc 0)) ex_heapY
     (Some ex_fabricY)))) = [ex_dev ''ib1'' 2 [''P''], ex_dev ''ib2'' 2 [''P'']]"
proof -
  let ?ps = "ex_params 0 2 ''P''"
  let ?G = "GetDevice ex_env ex_heapY (Some ex_fabricY) (Some ?ps)"
  have wf: "well_formed ex_env ex_heapY ex_fabricY"
    by (simp add: spec_defs ex_defs ex_heapY_def ex_fabricY_def)
  have pr: "Provider ?ps \<noteq> []" by (simp add: ex_defs)
  have fe: "first_eligible ex_env ex_heapY ex_fabricY 2 ''P'' 0 = None"
    by (simp add: spec_defs ex_defs ex_heapY_def ex_fabricY_def)
  have fe': "first_eligible ex_env ex_heapY ex_fabricY (DevClass ?ps) (Provider ?ps) (NUMANode ?ps) = None"
    using fe by (simp add: ex_defs)
  have fo: "fallback_order ex_fabricY = [1, 2, 0]"
    by (simp add: spec_defs ex_defs ex_fabricY_def rotate1_def eval_nat_numeral)
  have fi: "find (has_eligible ex_env ex_heapY ex_fabricY 2 ''P'') (fallback_order ex_fabricY) = Some 1"
    unfolding fo by (simp add: spec_defs ex_defs ex_heapY_def ex_fabricY_def)
  have g: "?G = (fst ?G, fst (snd ?G), Some (the (snd (snd ?G))))"
    by (simp add: eval_defs ex_defs ex_heapY_def ex_fabricY_def)
  from GetDevice_fallback [OF wf pr fe' g] fi
  have t: "fst ?G = Ok (Some (length ex_heapY))"
      "getNUMANodes ex_fabricY ! nat (currentNUMANode (the (snd (snd ?G)))) = 1"
    by (auto simp: ex_defs)
  have l: "length ex_heapY = 3" by (simp add: ex_heapY_def)
  have two: "fst (GetDevice_times ex_env ?ps (Suc (Suc 0)) ex_heapY (Some ex_fabricY))
     = [Ok (Some 3), Ok (Some 4)]"
    "drop 3 (fst (snd (GetDevice_times ex_env ?ps (Suc (Suc 0)) ex_heapY
     (Some ex_fabricY)))) = [ex_dev ''ib1'' 2 [''P''], ex_dev ''ib2'' 2 [''P'']]"
    by (simp_all add: eval_defs ex_defs ex_heapY_def ex_fabricY_def)
  from wf fe fo fi t l two show ?thesis by simp
qed

text \<open>
  C2 as first stated has the two calls return the device of node 1 and then the device of
  node 2 whenever node 0 holds no device of the class. When node 0 holds no device at all it is
  not a key of the inventory, the first fallback starts at the second populated node, and the
  two calls return the device of node 2 and then the device of node 1.
\<close>

theorem GetDevice_fallback_counterexample:
  "getNumDevices ex_fabricN 0 = 0 \<and>
   well_formed ex_env ex_heapY ex_fabricN \<and>
   fst (GetDevice_times ex_env (ex_params 0 2 ''P'') (Suc (Suc 0)) ex_heapY (Some ex_fabricN))
     = [Ok (Some 3), Ok (Some 4)] \<and>
   drop 3 (fst (snd (GetDevice_times ex_env (ex_params 0 2 ''P'') (Suc (Suc 0)) ex_heapY
     (Some ex_fabricN)))) = [ex_dev ''ib2'' 2 [''P''], ex_dev ''ib1'' 2 [''P'']] \<and>
   drop 3 (fst (snd (GetDevice_times ex_env (ex_params 0 2 ''P'') (Suc (Suc 0)) ex_heapY
     (Some ex_fabricN)))) \<noteq> [ex_dev ''ib1'' 2 [''P''], ex_dev ''ib2'' 2 [''P'']]"
  by (simp add: eval_defs spec_defs ex_defs ex_heapY_def ex_fabricN_def)

lemma eligible_kept: "kept env n n' \<Longrightarrow> eligible env n' cls prov v = eligible env n cls prov v"
  by (simp add: eligible_def kept_def live_def)

lemma cand_nat: "0 \<le> c \<Longrightarrow> cand devs c i = devs ! ((nat c + i) mod length devs)"
proof -
  assume "0 \<le> c"
  then have "(c + int i) mod int (length devs) = int ((nat c + i) mod length devs)"
    by (simp add: zmod_int)
  then have "nat ((c + int i) mod int (length devs)) = (nat c + i) mod length devs" by simp
  then show ?thesis by (simp add: cand_def)
qed

lemma cand_in_set: "0 \<le> c \<Longrightarrow> devs \<noteq> [] \<Longrightarrow> cand devs c i \<in> set devs"
  by (simp add: cand_nat)

lemma GetDevice_times_all_eligible:
  assumes "map_of (numaMap n) (NUMANode ps) = Some devs"
    and "0 \<le> cursor n (NUMANode ps)" "cursor n (NUMANode ps) < int (length devs)"
    and "Provider ps \<noteq> []"
    and "\<forall>p\<in>set devs. \<exists>v. deref heap p = Some v \<and> eligible env n (DevClass ps) (Provider ps) v"
  shows "\<exists>n'. GetDevice_times env ps j heap (Some n) =
     (map (\<lambda>i. Ok (Some (length heap + i))) [0..<j],
      heap @ map (\<lambda>i. the (deref heap (cand devs (cursor n (NUMANode ps)) i))) [0..<j],
      Some n')"
  using assms
proof (induction j arbitrary: heap n)
  case 0
  then show ?case by simp
next
  case (Suc j)
  let ?x = "NUMANode ps"
  let ?c = "cursor n ?x"
  let ?k = "int (length devs)"
  have nz: "devs \<noteq> []" using Suc.prems(2,3) by auto
  have "devs ! nat ?c \<in> set devs" using Suc.prems(2,3) by simp
  with Suc.prems(5) obtain v0 where v0: "deref heap (devs ! nat ?c) = Some v0"
    "eligible env n (DevClass ps) (Provider ps) v0" by blast
  from GetDevice_at_cursor [OF Suc.prems(1,2,3) v0 Suc.prems(4)] obtain n1 where
    g: "GetDevice env heap (Some n) (Some ps) = (Ok (Some (length heap)), heap @ [v0], Some n1)"
    and k: "kept env n n1" and c1: "cursor n1 ?x = (?c + 1) mod ?k"
    by blast
  have d1: "map_of (numaMap n1) ?x = Some devs" using Suc.prems(1) k by (simp add: kept_def)
  have r1: "0 \<le> cursor n1 ?x" "cursor n1 ?x < ?k" unfolding c1 using nz by simp_all
  have e1: "\<forall>p\<in>set devs. \<exists>v. deref (heap @ [v0]) p = Some v \<and>
      eligible env n1 (DevClass ps) (Provider ps) v"
    using Suc.prems(5) by (auto simp: eligible_kept [OF k] dest: deref_append)
  from Suc.IH [OF d1 r1 Suc.prems(4) e1] obtain n' where
    ih: "GetDevice_times env ps j (heap @ [v0]) (Some n1) =
     (map (\<lambda>i. Ok (Some (length (heap @ [v0]) + i))) [0..<j],
      (heap @ [v0]) @ map (\<lambda>i. the (deref (heap @ [v0]) (cand devs (cursor n1 ?x) i))) [0..<j],
      Some n')" by blast
  have same: "the (deref (heap @ [v0]) (cand devs (cursor n1 ?x) i)) =
      the (deref heap (cand devs ?c (Suc i)))" for i
  proof -
    have "cand devs ?c (Suc i) \<in> set devs" using Suc.prems(2) nz by (rule cand_in_set)
    with Suc.prems(5) obtain v where "deref heap (cand devs ?c (Suc i)) = Some v" by blast
    then show ?thesis unfolding c1 cand_shift by (simp add: deref_append)
  qed
  have first: "the (deref heap (cand devs ?c 0)) = v0"
    using v0(1) Suc.prems(2,3) by (simp add: cand_0)
  have "GetDevice_times env ps (Suc j) heap (Some n) =
     (map (\<lambda>i. Ok (Some (length heap + i))) [0..<Suc j],
      heap @ map (\<lambda>i. the (deref heap (cand devs ?c i))) [0..<Suc j],
      Some n')"
    using g ih by (simp add: map_upt_Suc same first del: upt_Suc)
  then show ?case by blast
qed

subsection \<open>C1: round robin on one node\<close>

text \<open>
  C1. When all devices of the requested node match the requested class and provider, pass the
  filter and are live, and the node's cursor is a position of its list, \<open>j\<close> successive calls
  of \<open>GetDevice\<close> for that node, class and provider all succeed, and the \<open>i\<close>-th of them
  returns a new copy of the device \<open>i\<close> positions after the cursor, wrapping around at the
  end of the list. So as many calls as the node has devices return all of them, each once, in
  the order of the list rotated to the cursor; with devices A, B, C and the cursor at A, four
  calls return A, B, C, A.
\<close>

theorem round_robin:
  assumes "map_of (numaMap n) (NUMANode ps) = Some devs"
    and "0 \<le> cursor n (NUMANode ps)" "cursor n (NUMANode ps) < int (length devs)"
    and "Provider ps \<noteq> []"
    and "\<forall>p\<in>set devs. \<exists>v. deref heap p = Some v \<and> NetDevClass v = DevClass ps \<and>
           HasProvider env v (Provider ps) \<and> \<not> ShouldIgnore (ifaceFilter n) (Name v) \<and>
           live env n (Name v)"
  shows "fst (GetDevice_times env ps j heap (Some n)) =
           map (\<lambda>i. Ok (Some (length heap + i))) [0..<j] \<and>
         fst (snd (GetDevice_times env ps j heap (Some n))) =
           heap @ map (\<lambda>i. the (deref heap
              (devs ! ((nat (cursor n (NUMANode ps)) + i) mod length devs)))) [0..<j] \<and>
         (j = length devs \<longrightarrow>
            drop (length heap) (fst (snd (GetDevice_times env ps j heap (Some n)))) =
              map (\<lambda>p. the (deref heap p)) (rotate (nat (cursor n (NUMANode ps))) devs))"
proof -
  let ?c = "cursor n (NUMANode ps)"
  have el: "\<forall>p\<in>set devs. \<exists>v. deref heap p = Some v \<and> eligible env n (DevClass ps) (Provider ps) v"
    using assms(5) by (fastforce simp: eligible_def)
  from GetDevice_times_all_eligible [OF assms(1,2,3,4) el, of j] obtain n' where
    t: "GetDevice_times env ps j heap (Some n) =
     (map (\<lambda>i. Ok (Some (length heap + i))) [0..<j],
      heap @ map (\<lambda>i. the (deref heap (cand devs ?c i))) [0..<j], Some n')" by blast
  have a: "fst (GetDevice_times env ps j heap (Some n)) =
           map (\<lambda>i. Ok (Some (length heap + i))) [0..<j]" using t by simp
  have b: "fst (snd (GetDevice_times env ps j heap (Some n))) =
           heap @ map (\<lambda>i. the (deref heap (devs ! ((nat ?c + i) mod length devs)))) [0..<j]"
    using t by (simp add: cand_nat [OF assms(2)])
  have c: "drop (length heap) (fst (snd (GetDevice_times env ps j heap (Some n)))) =
              map (\<lambda>p. the (deref heap p)) (rotate (nat ?c) devs)" if "j = length devs"
  proof -
    have "map (\<lambda>i. the (deref heap (devs ! ((nat ?c + i) mod length devs)))) [0..<length devs] =
          map (\<lambda>p. the (deref heap p)) (rotate (nat ?c) devs)"
      by (rule nth_equalityI) (simp_all add: nth_rotate ac_simps)
    with b that show ?thesis by simp
  qed
  from a b c show ?thesis by blast
qed

theorem round_robin_witness:
  "fst (GetDevice_times ex_env (ex_params 0 1 ''P'') 4 ex_heapABC
        (Some (ex_fabric [(0, [Some 0, Some 1, Some 2])]))) =
     [Ok (Some 3), Ok (Some 4), Ok (Some 5), Ok (Some 6)] \<and>
   drop 3 (fst (snd (GetDevice_times ex_env (ex_params 0 1 ''P'') 4 ex_heapABC
        (Some (ex_fabric [(0, [Some 0, Some 1, Some 2])]))))) =
     [ex_dev ''A'' 1 [''P''], ex_dev ''B'' 1 [''P''], ex_dev ''C'' 1 [''P''],
      ex_dev ''A'' 1 [''P'']]"
proof -
  let ?n = "ex_fabric [(0, [Some 0, Some 1, Some 2])]"
  let ?ps = "ex_params 0 1 ''P''"
  let ?devs = "[Some 0, Some 1, Some (2::nat)]"
  have d: "map_of (numaMap ?n) (NUMANode ?ps) = Some ?devs" by (simp add: ex_defs)
  have c: "0 \<le> cursor ?n (NUMANode ?ps)" "cursor ?n (NUMANode ?ps) < int (length ?devs)"
    by (simp_all add: ex_defs spec_defs)
  have c0: "nat (cursor ?n (NUMANode ?ps)) = 0" by (simp add: ex_defs spec_defs)
  have pr: "Provider ?ps \<noteq> []" by (simp add: ex_defs)
  have el: "\<forall>p\<in>set ?devs. \<exists>v. deref ex_heapABC p = Some v \<and> NetDevClass v = DevClass ?ps \<and>
           HasProvider ex_env v (Provider ?ps) \<and> \<not> ShouldIgnore (ifaceFilter ?n) (Name v) \<and>
           live ex_env ?n (Name v)"
    by (simp add: ex_defs spec_defs ex_heapABC_def)
  have up: "[0..<4] = [0, 1, 2, 3::nat]" by (simp add: upt_rec)
  from round_robin [OF d c pr el, of 4] show ?thesis
    unfolding c0 up by (simp add: ex_heapABC_def deref_def)
qed

lemma deref_append_neq: "deref heap p \<noteq> None \<Longrightarrow> deref (heap @ ws) p = deref heap p"
  by (cases "deref heap p") (simp_all add: deref_append)

lemma vals_append: "\<forall>p\<in>set ptrs. deref heap p \<noteq> None \<Longrightarrow> vals (heap @ ws) ptrs = vals heap ptrs"
  by (simp add: vals_def deref_append_neq)

lemma vals_fresh: "vals (heap @ ws) (map Some [length heap..<length heap + length ws]) = ws"
  by (rule nth_equalityI) (simp_all add: vals_def deref_def nth_append)

lemma deref_fresh:
  "map (deref (heap @ ws)) (map Some [length heap..<length heap + length ws]) = map Some ws"
  by (rule nth_equalityI) (simp_all add: deref_def nth_append)

lemma Find_devs_spec:
  assumes "\<forall>p\<in>set devs. deref heap p \<noteq> None"
  shows "Find_devs name devs result heap =
     (Inr (result @ map Some [length heap..<
              length heap + length (filter (\<lambda>v. Name v = name) (vals heap devs))]),
      heap @ filter (\<lambda>v. Name v = name) (vals heap devs))"
  using assms
proof (induction devs arbitrary: result heap)
  case Nil
  then show ?case by (simp add: vals_def)
next
  case (Cons fi devs)
  from Cons.prems obtain v where v: "deref heap fi = Some v" by auto
  have rest: "\<forall>p\<in>set devs. deref heap p \<noteq> None" using Cons.prems by simp
  show ?case
  proof (cases "Name v = name")
    case False
    with v Cons.IH [OF rest] show ?thesis by (simp add: vals_def)
  next
    case True
    let ?h = "heap @ [v]"
    have r': "\<forall>p\<in>set devs. deref ?h p \<noteq> None" using rest by (simp add: deref_append_neq)
    have va: "vals ?h devs = vals heap devs" using rest by (rule vals_append)
    let ?ws = "filter (\<lambda>v. Name v = name) (vals heap devs)"
    have "Find_devs name (fi # devs) result heap =
        Find_devs name devs (result @ [Some (length heap)]) ?h"
      using v True by (simp add: copyFI_Some)
    also have "\<dots> = (Inr ((result @ [Some (length heap)]) @
          map Some [length ?h..<length ?h + length ?ws]), ?h @ ?ws)"
      using Cons.IH [OF r', of "result @ [Some (length heap)]"] va by simp
    also have "(result @ [Some (length heap)]) @ map Some [length ?h..<length ?h + length ?ws] =
        result @ map Some [length heap..<length heap + Suc (length ?ws)]"
      by (simp add: upt_conv_Cons del: upt_Suc)
    finally show ?thesis using v True by (simp add: vals_def del: upt_Suc)
  qed
qed

lemma Find_nodes_spec:
  assumes "\<forall>p\<in>set (concat (map snd m)). deref heap p \<noteq> None"
  shows "Find_nodes name m result heap =
     (Inr (result @ map Some [length heap..<
              length heap + length (filter (\<lambda>v. Name v = name) (vals heap (concat (map snd m))))]),
      heap @ filter (\<lambda>v. Name v = name) (vals heap (concat (map snd m))))"
  using assms
proof (induction m arbitrary: result heap)
  case Nil
  then show ?case by (simp add: vals_def)
next
  case (Cons e m)
  obtain x devs where e: "e = (x, devs)" by (cases e)
  let ?P = "\<lambda>v. Name v = name"
  let ?w1 = "filter ?P (vals heap devs)"
  let ?h = "heap @ ?w1"
  let ?rest = "concat (map snd m)"
  let ?w2 = "filter ?P (vals heap ?rest)"
  have d: "\<forall>p\<in>set devs. deref heap p \<noteq> None" and r: "\<forall>p\<in>set ?rest. deref heap p \<noteq> None"
    using Cons.prems e by auto
  have r': "\<forall>p\<in>set ?rest. deref ?h p \<noteq> None" using r by (simp add: deref_append_neq)
  have va: "vals ?h ?rest = vals heap ?rest" using r by (rule vals_append)
  have "Find_nodes name (e # m) result heap =
      Find_nodes name m (result @ map Some [length heap..<length heap + length ?w1]) ?h"
    using e Find_devs_spec [OF d, of name result] by simp
  also have "\<dots> = (Inr ((result @ map Some [length heap..<length heap + length ?w1]) @
        map Some [length ?h..<length ?h + length ?w2]), ?h @ ?w2)"
    using Cons.IH [OF r'] va by simp
  also have "(result @ map Some [length heap..<length heap + length ?w1]) @
        map Some [length ?h..<length ?h + length ?w2] =
      result @ map Some [length heap..<length heap + (length ?w1 + length ?w2)]"
  proof -
    have "[length heap..<length heap + length ?w1 + length ?w2] =
        [length heap..<length heap + length ?w1] @
        [length heap + length ?w1..<length heap + length ?w1 + length ?w2]"
      by (rule upt_add_eq_append) simp
    then show ?thesis by (simp add: add.assoc)
  qed
  finally show ?case using e by (simp add: vals_def)
qed

lemma Find_spec:
  assumes "\<forall>p\<in>set (inventory n). deref heap p \<noteq> None"
  shows "Find heap (Some n) name =
     (if filter (\<lambda>v. Name v = name) (vals heap (inventory n)) = []
      then (Err (ErrInterfaceNotFound name), heap)
      else (Ok (map Some [length heap..<
                 length heap + length (filter (\<lambda>v. Name v = name) (vals heap (inventory n)))]),
            heap @ filter (\<lambda>v. Name v = name) (vals heap (inventory n))))"
  using Find_nodes_spec [OF assms [unfolded inventory_def], of name "[]"]
  by (simp add: Find_def inventory_def)

lemma filterDomain_loop_spec:
  assumes "\<forall>p\<in>set ptrs. deref heap p \<noteq> None"
  shows "filterDomain_loop heap d ptrs result =
     Inr (result @ filter (\<lambda>p. (\<lambda>v. Domain v = d \<or> (Name v = d \<and> Domain v = []))
             (the (deref heap p))) ptrs)"
  using assms
  by (induction ptrs arbitrary: result) auto

lemma filterProvider_loop_spec:
  assumes "\<forall>p\<in>set ptrs. deref heap p \<noteq> None"
  shows "filterProvider_loop env heap prov ptrs result =
     Inr (result @ filter (\<lambda>p. (\<lambda>v. HasProvider env v prov \<or> NetDevClass v = FabricDevClassManual)
             (the (deref heap p))) ptrs)"
  using assms
  by (induction ptrs arbitrary: result) auto

lemma vals_filter: "vals heap (filter (\<lambda>p. P (the (deref heap p))) ptrs) = filter P (vals heap ptrs)"
  by (simp add: vals_def filter_map comp_def)

lemma deref_vals: "\<forall>p\<in>set ptrs. deref heap p \<noteq> None \<Longrightarrow> map (deref heap) ptrs = map Some (vals heap ptrs)"
  by (auto simp: vals_def)

lemma FindDevice_domain_spec:
  assumes "\<forall>p\<in>set ptrs. deref heap p \<noteq> None"
  shows "\<exists>ptrs'. set ptrs' \<subseteq> set ptrs \<and>
     vals heap ptrs' =
       (if ReqDomain ps = [] then vals heap ptrs
        else filter (\<lambda>v. Domain v = ReqDomain ps \<or> (Domain v = [] \<and> Name v = ReqDomain ps))
               (vals heap ptrs)) \<and>
     FindDevice_domain heap ps ptrs =
       (if vals heap ptrs' = [] \<and> ReqDomain ps \<noteq> []
        then Err (ErrNoRequestedDomain (Interface ps) (ReqDomain ps)) else Ok ptrs')"
proof (cases "ReqDomain ps = []")
  case True
  then show ?thesis by (auto simp: FindDevice_domain_def)
next
  case False
  let ?P = "\<lambda>v. Domain v = ReqDomain ps \<or> (Name v = ReqDomain ps \<and> Domain v = [])"
  let ?ptrs' = "filter (\<lambda>p. ?P (the (deref heap p))) ptrs"
  have 1: "vals heap ?ptrs' = filter ?P (vals heap ptrs)" by (rule vals_filter)
  have 2: "(\<lambda>v. Domain v = ReqDomain ps \<or> (Domain v = [] \<and> Name v = ReqDomain ps)) = ?P"
    by auto
  have 3: "(?ptrs' = []) = (vals heap ?ptrs' = [])" by (simp add: vals_def)
  have "set ?ptrs' \<subseteq> set ptrs \<and>
     vals heap ?ptrs' =
       (if ReqDomain ps = [] then vals heap ptrs
        else filter (\<lambda>v. Domain v = ReqDomain ps \<or> (Domain v = [] \<and> Name v = ReqDomain ps))
               (vals heap ptrs)) \<and>
     FindDevice_domain heap ps ptrs =
       (if vals heap ?ptrs' = [] \<and> ReqDomain ps \<noteq> []
        then Err (ErrNoRequestedDomain (Interface ps) (ReqDomain ps)) else Ok ?ptrs')"
    unfolding 2 using False 1 3 filterDomain_loop_spec [OF assms, of "ReqDomain ps" "[]"]
    by (simp add: FindDevice_domain_def filterDomain_def)
  then show ?thesis by blast
qed

lemma FindDevice_provider_spec:
  assumes "\<forall>p\<in>set ptrs. deref heap p \<noteq> None"
  shows "\<exists>ptrs'. set ptrs' \<subseteq> set ptrs \<and>
     vals heap ptrs' =
       (if Provider ps = [] then vals heap ptrs
        else filter (\<lambda>v. HasProvider env v (Provider ps) \<or> NetDevClass v = FabricDevClassManual)
               (vals heap ptrs)) \<and>
     FindDevice_provider env heap ps ptrs =
       (if vals heap ptrs' = [] \<and> Provider ps \<noteq> []
        then Err (ErrNoProviderSupport (Interface ps) (Provider ps)) else Ok ptrs')"
proof (cases "Provider ps = []")
  case True
  then show ?thesis by (auto simp: FindDevice_provider_def)
next
  case False
  let ?P = "\<lambda>v. HasProvider env v (Provider ps) \<or> NetDevClass v = FabricDevClassManual"
  let ?ptrs' = "filter (\<lambda>p. ?P (the (deref heap p))) ptrs"
  have 1: "vals heap ?ptrs' = filter ?P (vals heap ptrs)" by (rule vals_filter)
  have 3: "(?ptrs' = []) = (vals heap ?ptrs' = [])" by (simp add: vals_def)
  have "set ?ptrs' \<subseteq> set ptrs \<and>
     vals heap ?ptrs' =
       (if Provider ps = [] then vals heap ptrs
        else filter ?P (vals heap ptrs)) \<and>
     FindDevice_provider env heap ps ptrs =
       (if vals heap ?ptrs' = [] \<and> Provider ps \<noteq> []
        then Err (ErrNoProviderSupport (Interface ps) (Provider ps)) else Ok ?ptrs')"
    using False 1 3 filterProvider_loop_spec [OF assms, of env "Provider ps" "[]"]
    by (simp add: FindDevice_provider_def filterProvider_def)
  then show ?thesis by blast
qed

lemma FindDevice_spec:
  assumes valid: "\<forall>p\<in>set (inventory n). deref heap p \<noteq> None"
    and named: "named = filter (\<lambda>v. Name v = Interface ps) (vals heap (inventory n))"
    and byDomain: "byDomain =
       (if ReqDomain ps = [] then named
        else filter (\<lambda>v. Domain v = ReqDomain ps \<or> (Domain v = [] \<and> Name v = ReqDomain ps)) named)"
    and byProvider: "byProvider =
       (if Provider ps = [] then byDomain
        else filter (\<lambda>v. HasProvider env v (Provider ps) \<or> NetDevClass v = FabricDevClassManual)
               byDomain)"
  shows "\<exists>ptrs. set ptrs \<subseteq> set (map Some [length heap..<length heap + length named]) \<and>
     vals (heap @ named) ptrs = byProvider \<and>
     FindDevice env heap (Some n) (Some ps) =
       (if named = [] then (Err (ErrInterfaceNotFound (Interface ps)), heap)
        else if byDomain = []
          then (Err (ErrNoRequestedDomain (Interface ps) (ReqDomain ps)), heap @ named)
        else if byProvider = []
          then (Err (ErrNoProviderSupport (Interface ps) (Provider ps)), heap @ named)
        else (Ok ptrs, heap @ named))"
proof (cases "named = []")
  case True
  have "set [] \<subseteq> set (map Some [length heap..<length heap + length named]) \<and>
     vals (heap @ named) [] = byProvider"
    using True byDomain byProvider by (simp add: vals_def)
  moreover have "FindDevice env heap (Some n) (Some ps) =
      (Err (ErrInterfaceNotFound (Interface ps)), heap)"
    using True Find_spec [OF valid, of "Interface ps"] named by (simp add: FindDevice_def)
  ultimately show ?thesis using True by (intro exI [of _ "[]"]) simp
next
  case False
  let ?h = "heap @ named"
  let ?p0 = "map Some [length heap..<length heap + length named]"
  have f: "Find heap (Some n) (Interface ps) = (Ok ?p0, ?h)"
    using False Find_spec [OF valid, of "Interface ps"] named by simp
  have v0: "\<forall>p\<in>set ?p0. deref ?h p \<noteq> None" by (auto simp: deref_def)
  have n0: "vals ?h ?p0 = named" by (rule vals_fresh)
  from FindDevice_domain_spec [OF v0, of ps] obtain p1 where
    s1: "set p1 \<subseteq> set ?p0"
    and b1: "vals ?h p1 =
       (if ReqDomain ps = [] then vals ?h ?p0
        else filter (\<lambda>v. Domain v = ReqDomain ps \<or> (Domain v = [] \<and> Name v = ReqDomain ps))
               (vals ?h ?p0))"
    and d: "FindDevice_domain ?h ps ?p0 =
       (if vals ?h p1 = [] \<and> ReqDomain ps \<noteq> []
        then Err (ErrNoRequestedDomain (Interface ps) (ReqDomain ps)) else Ok p1)"
    by blast
  have p1: "vals ?h p1 = byDomain" by (simp only: b1 n0 byDomain)
  have nd: "ReqDomain ps = [] \<Longrightarrow> byDomain \<noteq> []" using False by (simp only: byDomain simp_thms if_True)
  have d': "FindDevice_domain ?h ps ?p0 =
       (if byDomain = [] then Err (ErrNoRequestedDomain (Interface ps) (ReqDomain ps)) else Ok p1)"
    using nd by (cases "ReqDomain ps = []") (simp_all only: d p1 if_True if_False simp_thms)
  have v1: "\<forall>p\<in>set p1. deref ?h p \<noteq> None" using v0 s1 by blast
  from FindDevice_provider_spec [OF v1, of ps env] obtain p2 where
    s2: "set p2 \<subseteq> set p1"
    and b2: "vals ?h p2 =
       (if Provider ps = [] then vals ?h p1
        else filter (\<lambda>v. HasProvider env v (Provider ps) \<or> NetDevClass v = FabricDevClassManual)
               (vals ?h p1))"
    and e: "FindDevice_provider env ?h ps p1 =
       (if vals ?h p2 = [] \<and> Provider ps \<noteq> []
        then Err (ErrNoProviderSupport (Interface ps) (Provider ps)) else Ok p2)"
    by blast
  have p2: "vals ?h p2 = byProvider" by (simp only: b2 p1 byProvider)
  have np: "Provider ps = [] \<Longrightarrow> byDomain \<noteq> [] \<Longrightarrow> byProvider \<noteq> []"
    by (simp only: byProvider simp_thms if_True)
  have e': "byDomain \<noteq> [] \<Longrightarrow> FindDevice_provider env ?h ps p1 =
       (if byProvider = [] then Err (ErrNoProviderSupport (Interface ps) (Provider ps)) else Ok p2)"
    using np by (cases "Provider ps = []") (simp_all only: e p2 if_True if_False simp_thms)
  have "FindDevice env heap (Some n) (Some ps) =
       (if byDomain = []
          then (Err (ErrNoRequestedDomain (Interface ps) (ReqDomain ps)), ?h)
        else if byProvider = []
          then (Err (ErrNoProviderSupport (Interface ps) (Provider ps)), ?h)
        else (Ok p2, ?h))"
    using f d' e' by (simp add: FindDevice_def)
  moreover have "set p2 \<subseteq> set ?p0" using s1 s2 by blast
  ultimately have "set p2 \<subseteq> set ?p0 \<and> vals ?h p2 = byProvider \<and>
     FindDevice env heap (Some n) (Some ps) =
       (if named = [] then (Err (ErrInterfaceNotFound (Interface ps)), heap)
        else if byDomain = []
          then (Err (ErrNoRequestedDomain (Interface ps) (ReqDomain ps)), ?h)
        else if byProvider = []
          then (Err (ErrNoProviderSupport (Interface ps) (Provider ps)), ?h)
        else (Ok p2, ?h))"
    using False p2 by (simp only: if_False simp_thms)
  then show ?thesis by (rule exI)
qed

subsection \<open>C4: the layers of FindDevice\<close>

text \<open>
  C4. On an inventory without nil pointers, \<open>FindDevice\<close> takes the entities of the given
  name; when there is none it fails with the error of \<open>Find\<close>. When a domain is requested
  it keeps those whose domain is the requested one, or whose domain is empty and whose name is
  the requested domain, and fails with the error that names the requested domain when none is
  left. When a provider is requested it keeps those that support it or are of class
  \<open>FabricDevClassManual\<close>, and fails with the error that names the requested provider when
  none is left. Otherwise it returns pointers to copies of what is left, in order.
\<close>

theorem FindDevice_layers:
  assumes "\<forall>p\<in>set (inventory n). deref heap p \<noteq> None"
    and "FindDevice env heap (Some n) (Some ps) = (r, heap')"
    and "named = filter (\<lambda>v. Name v = Interface ps) (vals heap (inventory n))"
    and "byDomain =
       (if ReqDomain ps = [] then named
        else filter (\<lambda>v. Domain v = ReqDomain ps \<or> (Domain v = [] \<and> Name v = ReqDomain ps)) named)"
    and "byProvider =
       (if Provider ps = [] then byDomain
        else filter (\<lambda>v. HasProvider env v (Provider ps) \<or> NetDevClass v = FabricDevClassManual)
               byDomain)"
  shows "if named = [] then r = Err (ErrInterfaceNotFound (Interface ps))
         else if byDomain = [] then r = Err (ErrNoRequestedDomain (Interface ps) (ReqDomain ps))
         else if byProvider = [] then r = Err (ErrNoProviderSupport (Interface ps) (Provider ps))
         else \<exists>ptrs. r = Ok ptrs \<and> map (deref heap') ptrs = map Some byProvider"
proof -
  from FindDevice_spec [OF assms(1,3,4,5)] assms(2) obtain ptrs where
    s: "set ptrs \<subseteq> set (map Some [length heap..<length heap + length named])"
    and v: "vals (heap @ named) ptrs = byProvider"
    and f: "(r, heap') =
       (if named = [] then (Err (ErrInterfaceNotFound (Interface ps)), heap)
        else if byDomain = []
          then (Err (ErrNoRequestedDomain (Interface ps) (ReqDomain ps)), heap @ named)
        else if byProvider = []
          then (Err (ErrNoProviderSupport (Interface ps) (Provider ps)), heap @ named)
        else (Ok ptrs, heap @ named))"
    by auto
  have "\<forall>p\<in>set ptrs. deref (heap @ named) p \<noteq> None" using s by (auto simp: deref_def)
  from deref_vals [OF this] v have "map (deref (heap @ named)) ptrs = map Some byProvider" by simp
  with f show ?thesis by (auto split: if_splits)
qed

theorem FindDevice_layers_witness:
  "fst (FindDevice ex_env ex_heapF (Some (ex_fabric [(0, [Some 0, Some 1])]))
        (Some (ex_find ''ib0'' [] ''tcp''))) = Ok [Some 3] \<and>
   snd (FindDevice ex_env ex_heapF (Some (ex_fabric [(0, [Some 0, Some 1])]))
        (Some (ex_find ''ib0'' [] ''tcp''))) ! 3 =
     \<lparr>Name = ''ib0'', Domain = ''ib0d1'', NetDevClass = 1, hw = [''tcp'']\<rparr> \<and>
   fst (FindDevice ex_env ex_heapF (Some (ex_fabric [(0, [Some 0, Some 1])]))
        (Some (ex_find ''ib0'' ''nope'' []))) = Err (ErrNoRequestedDomain ''ib0'' ''nope'')"
proof -
  let ?n = "ex_fabric [(0, [Some 0, Some 1])]"
  let ?F = "\<lambda>ps. FindDevice ex_env ex_heapF (Some ?n) (Some ps)"
  have valid: "\<forall>p\<in>set (inventory ?n). deref ex_heapF p \<noteq> None"
    by (simp add: find_defs ex_defs deref_def)
  have inv: "vals ex_heapF (inventory ?n) = ex_heapF"
    by (simp add: find_defs ex_defs deref_def)
  have a: "if ex_heapF = [] then fst (?F (ex_find ''ib0'' [] ''tcp'')) = Err (ErrInterfaceNotFound ''ib0'')
     else \<exists>ptrs. fst (?F (ex_find ''ib0'' [] ''tcp'')) = Ok ptrs \<and>
        map (deref (snd (?F (ex_find ''ib0'' [] ''tcp'')))) ptrs = map Some [ex_heapF ! 1]"
    using FindDevice_layers [OF valid, of ex_env "ex_find ''ib0'' [] ''tcp''"
        "fst (?F (ex_find ''ib0'' [] ''tcp''))" "snd (?F (ex_find ''ib0'' [] ''tcp''))"
        ex_heapF ex_heapF "[ex_heapF ! 1]"] inv
    by (simp add: ex_find_def ex_heapF_def HasProvider_def ex_env_def FabricDevClassManual_def)
  have b: "fst (?F (ex_find ''ib0'' [] ''tcp'')) = Ok [Some 3]"
    "snd (?F (ex_find ''ib0'' [] ''tcp'')) ! 3 =
     \<lparr>Name = ''ib0'', Domain = ''ib0d1'', NetDevClass = 1, hw = [''tcp'']\<rparr>"
    "fst (?F (ex_find ''ib0'' ''nope'' [])) = Err (ErrNoRequestedDomain ''ib0'' ''nope'')"
    by (simp_all add: find_defs ex_defs deref_def HasProvider_def FabricDevClassManual_def)
  from a b show ?thesis by simp
qed

lemma scan_Ok_inventory:
  assumes "getDeviceFromNUMA env heap n x cls prov = (Ok p, n')"
  shows "p \<in> set (inventory n)"
proof -
  from scan_Ok(4) [OF assms] obtain devs j where d: "map_of (numaMap n) x = Some devs"
    "0 \<le> cursor n x" "cursor n x < int (length devs)" "p = cand devs (cursor n x) j"
    by blast
  have "devs \<noteq> []" using d(2,3) by auto
  with d(2,4) have "p \<in> set devs" by (simp add: cand_in_set)
  moreover have "(x, devs) \<in> set (numaMap n)" using d(1) by (rule map_of_SomeD)
  ultimately show ?thesis by (force simp: inventory_def)
qed

lemma GetDevice_Ok_inventory:
  assumes "GetDevice env heap (Some n) (Some ps) = (Ok r, heap', n'')"
  shows "\<exists>p\<in>set (inventory n). \<exists>v. deref heap p = Some v \<and> r = Some (length heap) \<and>
     heap' = heap @ [v]"
proof -
  from GetDevice_Ok [OF assms] obtain p v n' where v: "deref heap p = Some v"
    "r = Some (length heap)" "heap' = heap @ [v]"
    and o: "getDeviceFromNUMA env heap n (NUMANode ps) (DevClass ps) (Provider ps) = (Ok p, n') \<or>
       (\<exists>e n1. getDeviceFromNUMA env heap n (NUMANode ps) (DevClass ps) (Provider ps) = (Err e, n1) \<and>
          findOnAnyNUMA env heap n1 (DevClass ps) (Provider ps) = (Ok p, n'))"
    by blast
  from o have "p \<in> set (inventory n)"
  proof
    assume "getDeviceFromNUMA env heap n (NUMANode ps) (DevClass ps) (Provider ps) = (Ok p, n')"
    then show ?thesis by (rule scan_Ok_inventory)
  next
    assume "\<exists>e n1. getDeviceFromNUMA env heap n (NUMANode ps) (DevClass ps) (Provider ps) = (Err e, n1) \<and>
          findOnAnyNUMA env heap n1 (DevClass ps) (Provider ps) = (Ok p, n')"
    then obtain e n1 where
      g: "getDeviceFromNUMA env heap n (NUMANode ps) (DevClass ps) (Provider ps) = (Err e, n1)"
      and f: "findOnAnyNUMA_loop env heap (getNUMANodes n1) (DevClass ps) (Provider ps) 0 n1 = (Ok p, n')"
      by (auto simp: findOnAnyNUMA_def)
    from find_Ok [OF f] obtain j n3 where k: "kept env n1 n3"
      and s: "getDeviceFromNUMA env heap n3
          (ncand (getNUMANodes n1) (currentNUMANode n1) j) (DevClass ps) (Provider ps) = (Ok p, n')"
      by blast
    have "kept env n n3" using scan_Err(2) [OF g] k by (rule kept_trans)
    then have "inventory n3 = inventory n" by (simp add: inventory_def kept_def)
    with scan_Ok_inventory [OF s] show ?thesis by simp
  qed
  with v show ?thesis by blast
qed

lemma store_write_fresh:
  assumes "deref heap q \<noteq> None" "length heap \<le> a"
  shows "deref (store_write (heap @ ws) (Some a) w) q = deref heap q"
proof -
  from assms(1) obtain b where b: "q = Some b" "b < length heap"
    by (auto simp: deref_def split: option.splits if_splits)
  with assms(2) show ?thesis
    by (simp add: store_write_def deref_def nth_append)
qed

lemma find_append_cases:
  "find P (xs @ ys) = (case find P xs of None \<Rightarrow> find P ys | Some x \<Rightarrow> Some x)"
  by (induction xs) simp_all

lemma find_concat_map:
  "find P (concat (map f ys)) =
     (case find (\<lambda>y. find P (f y) \<noteq> None) ys of None \<Rightarrow> None | Some y \<Rightarrow> find P (f y))"
  by (induction ys) (auto simp: find_append_cases split: option.splits)

lemma find_scan_order:
  "find (eligible_at env heap n cls prov) (scan_order n node) =
     (case first_eligible env heap n cls prov node of
        Some p \<Rightarrow> Some p
      | None \<Rightarrow>
          (case find (has_eligible env heap n cls prov) (fallback_order n) of
             None \<Rightarrow> None
           | Some x \<Rightarrow> first_eligible env heap n cls prov x))"
proof -
  have h: "has_eligible env heap n cls prov =
      (\<lambda>y. find (eligible_at env heap n cls prov) (candidates n y) \<noteq> None)"
    by (rule ext) (simp add: has_eligible_first first_eligible_def)
  show ?thesis
    unfolding scan_order_def find_append_cases find_concat_map h first_eligible_def
    by (simp split: option.splits)
qed

lemma find_first:
  "\<forall>q\<in>set pre. \<not> P q \<Longrightarrow> P p \<Longrightarrow> find P (pre @ p # post) = Some p"
  by (induction pre) simp_all

lemma GetDevice_first:
  assumes wf: "well_formed env heap n" and pr: "Provider ps \<noteq> []"
    and f: "find (eligible_at env heap n (DevClass ps) (Provider ps)) (scan_order n (NUMANode ps)) = Some p"
  shows "\<exists>v n'. deref heap p = Some v \<and>
     GetDevice env heap (Some n) (Some ps) = (Ok (Some (length heap)), heap @ [v], Some n')"
proof -
  obtain r heap' e' where g: "GetDevice env heap (Some n) (Some ps) = (r, heap', e')"
    by (cases "GetDevice env heap (Some n) (Some ps)")
  note fs = f [unfolded find_scan_order]
  show ?thesis
  proof (cases r)
    case (Panicked q)
    with g GetDevice_no_panic [OF wf, of "Some ps" q] show ?thesis by simp
  next
    case (Err e)
    from GetDevice_Err [OF g [unfolded Err]] pr obtain e1 n1 n' where
      s: "getDeviceFromNUMA env heap n (NUMANode ps) (DevClass ps) (Provider ps) = (Err e1, n1)"
      and fa: "findOnAnyNUMA env heap n1 (DevClass ps) (Provider ps) = (Err e, n')"
      by auto
    from scan_Err_first [OF s] fallback_Err [OF s fa] fs show ?thesis by simp
  next
    case (Ok q)
    from GetDevice_Ok [OF g [unfolded Ok]] obtain p' v n' where
      v: "e' = Some n'" "deref heap p' = Some v" "q = Some (length heap)" "heap' = heap @ [v]"
      and o: "getDeviceFromNUMA env heap n (NUMANode ps) (DevClass ps) (Provider ps) = (Ok p', n') \<or>
       (\<exists>e n1. getDeviceFromNUMA env heap n (NUMANode ps) (DevClass ps) (Provider ps) = (Err e, n1) \<and>
          findOnAnyNUMA env heap n1 (DevClass ps) (Provider ps) = (Ok p', n'))"
      by auto
    from o have "p' = p"
    proof
      assume "getDeviceFromNUMA env heap n (NUMANode ps) (DevClass ps) (Provider ps) = (Ok p', n')"
      from scan_Ok_first [OF this] fs show ?thesis by simp
    next
      assume "\<exists>e n1. getDeviceFromNUMA env heap n (NUMANode ps) (DevClass ps) (Provider ps) = (Err e, n1) \<and>
          findOnAnyNUMA env heap n1 (DevClass ps) (Provider ps) = (Ok p', n')"
      then obtain e n1 where
        s: "getDeviceFromNUMA env heap n (NUMANode ps) (DevClass ps) (Provider ps) = (Err e, n1)"
        and fa: "findOnAnyNUMA env heap n1 (DevClass ps) (Provider ps) = (Ok p', n')"
        by blast
      from fallback_Ok [OF s fa] obtain x where
        "find (has_eligible env heap n (DevClass ps) (Provider ps)) (fallback_order n) = Some x"
        "first_eligible env heap n (DevClass ps) (Provider ps) x = Some p'"
        by blast
      with scan_Err_first [OF s] fs show ?thesis by simp
    qed
    with g Ok v show ?thesis by simp
  qed
qed

lemma getNextDevice_at_cursor:
  assumes d: "map_of (numaMap n) node = Some devs"
    and c: "0 \<le> cursor n node" "cursor n node < int (length devs)"
  shows "\<exists>n0. getNextDevice n node = (Inr (devs ! nat (cursor n node)), n0) \<and>
     kept env n n0 \<and> cursor n0 node = (cursor n node + 1) mod int (length devs)"
proof -
  let ?c = "cursor n node"
  have k: "0 < getNumDevices n node" using d c by (cases devs) (simp_all add: getNumDevices_def)
  obtain r0 n0 where g0: "getNextDevIndex n node = (r0, n0)" by (cases "getNextDevIndex n node")
  note c0 = getNextDevIndex_cases [OF g0]
  from c0(4) [OF k] have r0: "r0 = Inr ?c"
    and c1: "cursor n0 node = (?c + 1) smod getNumDevices n node" by simp_all
  have nm: "numaMap n0 = numaMap n" using c0(1) by simp
  have g: "getNextDevice n node = (Inr (devs ! nat ?c), n0)"
    using g0 r0 nm d c by (simp add: getNextDevice_def)
  have k0: "kept env n n0" using c0(1) by (simp add: kept_def validator_def)
  have "(?c + 1) smod int (length devs) = (?c + 1) mod int (length devs)"
    using c by (intro smod_nonneg) (cases devs; simp)+
  then have "cursor n0 node = (?c + 1) mod int (length devs)"
    using c1 d by (simp add: getNumDevices_def)
  with g k0 show ?thesis by blast
qed

lemma manual_selected:
  assumes d: "map_of (numaMap n) node = Some devs" and lt: "checked < length devs"
    and c: "0 \<le> cursor n node" "cursor n node < int (length devs)"
    and v: "deref heap (devs ! nat (cursor n node)) = Some v"
    and m: "NetDevClass v = FabricDevClassManual"
    and ni: "\<not> ShouldIgnore (ifaceFilter n) (Name v)"
    and l: "live env n (Name v)"
  shows "\<exists>n1. kept env n n1 \<and> cursor n1 node = (cursor n node + 1) mod int (length devs) \<and>
          getDeviceFromNUMA_loop env heap node cls prov checked n =
            (Ok (devs ! nat (cursor n node)), n1)"
proof -
  let ?p = "devs ! nat (cursor n node)"
  obtain s n1 where b: "getDeviceFromNUMA_body env heap n node cls prov = (s, n1)"
    by (cases "getDeviceFromNUMA_body env heap n node cls prov")
  note bc = body_cases [OF b]
  have "valid_dev env heap n ?p" using v l by (simp add: valid_dev_def live_valid)
  from body_at_cursor [OF d c this b] have na: "\<forall>q. s \<noteq> Abort q" by simp
  have el: "eligible_at env heap n cls prov ?p" using v m ni l by (simp add: eligible_at_def eligible_def)
  from bc(5) [OF na] d el have s: "s = Return ?p"
    and c1: "cursor n1 node = (cursor n node + 1) mod int (length devs)" by auto
  have "int checked < getNumDevices n node" using d lt by (simp add: getNumDevices_def)
  from loop_step [OF this b] s bc(1) c1 show ?thesis by auto
qed

lemma mismatch_skip:
  assumes d: "map_of (numaMap n) node = Some devs" and lt: "checked < length devs"
    and c: "0 \<le> cursor n node" "cursor n node < int (length devs)"
    and v: "deref heap (devs ! nat (cursor n node)) = Some v"
    and m: "NetDevClass v \<noteq> FabricDevClassManual"
    and x: "NetDevClass v \<noteq> cls \<or> \<not> HasProvider env v prov"
  shows "\<exists>n1. kept env n n1 \<and> cursor n1 node = (cursor n node + 1) mod int (length devs) \<and>
          getDeviceFromNUMA_loop env heap node cls prov checked n =
          getDeviceFromNUMA_loop env heap node cls prov (Suc checked) n1"
proof -
  from getNextDevice_at_cursor [OF d c, of env] obtain n0 where
    g: "getNextDevice n node = (Inr (devs ! nat (cursor n node)), n0)"
    and k: "kept env n n0" and c1: "cursor n0 node = (cursor n node + 1) mod int (length devs)"
    by blast
  have b: "getDeviceFromNUMA_body env heap n node cls prov = (Continue, n0)"
    using g v m x by (auto simp: getDeviceFromNUMA_body_def)
  have "int checked < getNumDevices n node" using d lt by (simp add: getNumDevices_def)
  from loop_step [OF this b] k c1 show ?thesis by auto
qed

subsection \<open>C5: manual devices\<close>

text \<open>
  C5. In every iteration of the loop of \<open>getDeviceFromNUMA\<close>, on whatever node and after
  however many candidates, a candidate of class \<open>FabricDevClassManual\<close> that the filter does
  not ignore and that is live is returned, whatever class and provider are requested and
  whatever providers the device has; a candidate of another class is passed over when its
  class is not the requested one or it does not support the requested provider. So \<open>GetDevice\<close> on a well-formed engine, with a provider given, returns
  a copy of such a manual device wherever it meets it, on the requested node or on a node of
  the fallback, when no candidate examined before it is eligible.
\<close>

theorem manual_bypass:
  "(map_of (numaMap n) node = Some devs \<and> checked < length devs \<and>
    0 \<le> cursor n node \<and> cursor n node < int (length devs) \<and>
    deref heap (devs ! nat (cursor n node)) = Some v \<and>
    NetDevClass v = FabricDevClassManual \<and>
    \<not> ShouldIgnore (ifaceFilter n) (Name v) \<and> live env n (Name v)
     \<longrightarrow> (\<exists>n1. kept env n n1 \<and> cursor n1 node = (cursor n node + 1) mod int (length devs) \<and>
          getDeviceFromNUMA_loop env heap node cls prov checked n =
            (Ok (devs ! nat (cursor n node)), n1))) \<and>
   (map_of (numaMap n) node = Some devs \<and> checked < length devs \<and>
    0 \<le> cursor n node \<and> cursor n node < int (length devs) \<and>
    deref heap (devs ! nat (cursor n node)) = Some v \<and>
    NetDevClass v \<noteq> FabricDevClassManual \<and>
    (NetDevClass v \<noteq> cls \<or> \<not> HasProvider env v prov)
     \<longrightarrow> (\<exists>n1. kept env n n1 \<and> cursor n1 node = (cursor n node + 1) mod int (length devs) \<and>
          getDeviceFromNUMA_loop env heap node cls prov checked n =
          getDeviceFromNUMA_loop env heap node cls prov (Suc checked) n1)) \<and>
   (well_formed env heap n \<and> Provider ps \<noteq> [] \<and>
    scan_order n (NUMANode ps) = pre @ p # post \<and>
    (\<forall>q\<in>set pre. \<not> eligible_at env heap n (DevClass ps) (Provider ps) q) \<and>
    deref heap p = Some w \<and> NetDevClass w = FabricDevClassManual \<and>
    \<not> ShouldIgnore (ifaceFilter n) (Name w) \<and> live env n (Name w)
     \<longrightarrow> (\<exists>n'. GetDevice env heap (Some n) (Some ps) =
            (Ok (Some (length heap)), heap @ [w], Some n')))"
proof (intro conjI impI)
  assume "map_of (numaMap n) node = Some devs \<and> checked < length devs \<and>
    0 \<le> cursor n node \<and> cursor n node < int (length devs) \<and>
    deref heap (devs ! nat (cursor n node)) = Some v \<and>
    NetDevClass v = FabricDevClassManual \<and>
    \<not> ShouldIgnore (ifaceFilter n) (Name v) \<and> live env n (Name v)"
  then show "\<exists>n1. kept env n n1 \<and> cursor n1 node = (cursor n node + 1) mod int (length devs) \<and>
          getDeviceFromNUMA_loop env heap node cls prov checked n =
            (Ok (devs ! nat (cursor n node)), n1)"
    using manual_selected by blast
next
  assume "map_of (numaMap n) node = Some devs \<and> checked < length devs \<and>
    0 \<le> cursor n node \<and> cursor n node < int (length devs) \<and>
    deref heap (devs ! nat (cursor n node)) = Some v \<and>
    NetDevClass v \<noteq> FabricDevClassManual \<and>
    (NetDevClass v \<noteq> cls \<or> \<not> HasProvider env v prov)"
  then show "\<exists>n1. kept env n n1 \<and> cursor n1 node = (cursor n node + 1) mod int (length devs) \<and>
          getDeviceFromNUMA_loop env heap node cls prov checked n =
          getDeviceFromNUMA_loop env heap node cls prov (Suc checked) n1"
    using mismatch_skip by blast
next
  assume a: "well_formed env heap n \<and> Provider ps \<noteq> [] \<and>
    scan_order n (NUMANode ps) = pre @ p # post \<and>
    (\<forall>q\<in>set pre. \<not> eligible_at env heap n (DevClass ps) (Provider ps) q) \<and>
    deref heap p = Some w \<and> NetDevClass w = FabricDevClassManual \<and>
    \<not> ShouldIgnore (ifaceFilter n) (Name w) \<and> live env n (Name w)"
  then have el: "eligible_at env heap n (DevClass ps) (Provider ps) p"
    by (simp add: eligible_at_def eligible_def)
  from a have np: "\<forall>q\<in>set pre. \<not> eligible_at env heap n (DevClass ps) (Provider ps) q" by simp
  have "find (eligible_at env heap n (DevClass ps) (Provider ps)) (scan_order n (NUMANode ps)) = Some p"
    using a find_first [OF np el, of post] by simp
  from GetDevice_first [OF _ _ this] a show "\<exists>n'. GetDevice env heap (Some n) (Some ps) =
            (Ok (Some (length heap)), heap @ [w], Some n')"
    by auto
qed

theorem manual_bypass_witness:
  "fst (getDeviceFromNUMA_loop ex_env ex_heapM 0 7 ''Q'' (Suc 0)
      ((ex_fabric [(0, [Some 0, Some 1])])\<lparr>currentNumaDevIdx := Some [0 \<mapsto> 1]\<rparr>)) = Ok (Some 1) \<and>
   (\<exists>n1. cursor n1 0 = 1 \<and>
      getDeviceFromNUMA_loop ex_env ex_heapM 0 7 ''Q'' 0 (ex_fabric [(0, [Some 0, Some 1])]) =
      getDeviceFromNUMA_loop ex_env ex_heapM 0 7 ''Q'' (Suc 0) n1) \<and>
   scan_order (ex_fabric [(0, [Some 0, Some 1])]) 0 = [Some 0, Some 1, Some 0, Some 1] \<and>
   fst (GetDevice ex_env ex_heapM (Some (ex_fabric [(0, [Some 0, Some 1])]))
      (Some (ex_params 0 7 ''Q''))) = Ok (Some 2) \<and>
   fst (snd (GetDevice ex_env ex_heapM (Some (ex_fabric [(0, [Some 0, Some 1])]))
      (Some (ex_params 0 7 ''Q'')))) = ex_heapM @ [ex_dev ''ib0'' FabricDevClassManual []] \<and>
   scan_order (ex_fabric [(0, [Some 0]), (1, [Some 1])]) 0 = [Some 0, Some 1, Some 0] \<and>
   fst (GetDevice ex_env ex_heapM (Some (ex_fabric [(0, [Some 0]), (1, [Some 1])]))
      (Some (ex_params 0 7 ''Q''))) = Ok (Some 2) \<and>
   fst (snd (GetDevice ex_env ex_heapM (Some (ex_fabric [(0, [Some 0]), (1, [Some 1])]))
      (Some (ex_params 0 7 ''Q'')))) = ex_heapM @ [ex_dev ''ib0'' FabricDevClassManual []] \<and>
   fst (GetDevice ex_env ex_heap5 (Some (ex_fabric [(0, [Some 0])]))
      (Some (ex_params 0 7 ''anyProvider''))) = Ok (Some 1) \<and>
   fst (snd (GetDevice ex_env ex_heap5 (Some (ex_fabric [(0, [Some 0])]))
      (Some (ex_params 0 7 ''anyProvider'')))) =
        [ex_dev ''ib0'' FabricDevClassManual [], ex_dev ''ib0'' FabricDevClassManual []]"
proof -
  let ?a = "ex_fabric [(0, [Some 0, Some 1])]"
  let ?a1 = "?a\<lparr>currentNumaDevIdx := Some [0 \<mapsto> 1]\<rparr>"
  let ?b = "ex_fabric [(0, [Some 0]), (1, [Some 1])]"
  let ?ps = "ex_params 0 7 ''Q''"
  let ?eth = "ex_dev ''eth0'' 1 [''P'']"
  let ?ib = "ex_dev ''ib0'' FabricDevClassManual []"
  have h1: "map_of (numaMap ?a1) 0 = Some [Some 0, Some 1] \<and> Suc 0 < length [Some 0, Some (1::nat)] \<and>
    0 \<le> cursor ?a1 0 \<and> cursor ?a1 0 < int (length [Some 0, Some (1::nat)]) \<and>
    deref ex_heapM ([Some 0, Some 1] ! nat (cursor ?a1 0)) = Some ?ib \<and>
    NetDevClass ?ib = FabricDevClassManual \<and>
    \<not> ShouldIgnore (ifaceFilter ?a1) (Name ?ib) \<and> live ex_env ?a1 (Name ?ib)"
    by (simp add: spec_defs ex_defs ex_heapM_def)
  have h2: "map_of (numaMap ?a) 0 = Some [Some 0, Some 1] \<and> 0 < length [Some 0, Some (1::nat)] \<and>
    0 \<le> cursor ?a 0 \<and> cursor ?a 0 < int (length [Some 0, Some (1::nat)]) \<and>
    deref ex_heapM ([Some 0, Some 1] ! nat (cursor ?a 0)) = Some ?eth \<and>
    NetDevClass ?eth \<noteq> FabricDevClassManual \<and>
    (NetDevClass ?eth \<noteq> 7 \<or> \<not> HasProvider ex_env ?eth ''Q'')"
    by (simp add: spec_defs ex_defs ex_heapM_def)
  have sa: "scan_order ?a 0 = [Some 0, Some 1, Some 0, Some 1]"
    by (simp add: scan_order_def spec_defs ex_defs)
  have sb: "scan_order ?b 0 = [Some 0, Some 1, Some 0]"
    by (simp add: scan_order_def spec_defs ex_defs rotate1_def eval_nat_numeral)
  have h3: "well_formed ex_env ex_heapM ?a \<and> Provider ?ps \<noteq> [] \<and>
    scan_order ?a (NUMANode ?ps) = [Some 0] @ Some 1 # [Some 0, Some 1] \<and>
    (\<forall>q\<in>set [Some 0]. \<not> eligible_at ex_env ex_heapM ?a (DevClass ?ps) (Provider ?ps) q) \<and>
    deref ex_heapM (Some 1) = Some ?ib \<and> NetDevClass ?ib = FabricDevClassManual \<and>
    \<not> ShouldIgnore (ifaceFilter ?a) (Name ?ib) \<and> live ex_env ?a (Name ?ib)"
    using sa by (simp add: spec_defs ex_defs ex_heapM_def)
  have h4: "well_formed ex_env ex_heapM ?b \<and> Provider ?ps \<noteq> [] \<and>
    scan_order ?b (NUMANode ?ps) = [Some 0] @ Some 1 # [Some 0] \<and>
    (\<forall>q\<in>set [Some 0]. \<not> eligible_at ex_env ex_heapM ?b (DevClass ?ps) (Provider ?ps) q) \<and>
    deref ex_heapM (Some 1) = Some ?ib \<and> NetDevClass ?ib = FabricDevClassManual \<and>
    \<not> ShouldIgnore (ifaceFilter ?b) (Name ?ib) \<and> live ex_env ?b (Name ?ib)"
    using sb by (simp add: spec_defs ex_defs ex_heapM_def)
  note t1 = manual_bypass [where n = ?a1 and node = 0 and devs = "[Some 0, Some 1]"
      and checked = "Suc 0" and heap = ex_heapM and v = ?ib and env = ex_env
      and cls = 7 and prov = "''Q''"]
  note t2 = manual_bypass [where n = ?a and node = 0 and devs = "[Some 0, Some 1]"
      and checked = 0 and heap = ex_heapM and v = ?eth and env = ex_env
      and cls = 7 and prov = "''Q''"]
  note t3 = manual_bypass [where n = ?a and heap = ex_heapM and env = ex_env and ps = ?ps
      and pre = "[Some 0]" and p = "Some 1" and post = "[Some 0, Some 1]" and w = ?ib]
  note t4 = manual_bypass [where n = ?b and heap = ex_heapM and env = ex_env and ps = ?ps
      and pre = "[Some 0]" and p = "Some 1" and post = "[Some 0]" and w = ?ib]
  from t1 h1 have "\<exists>n1. getDeviceFromNUMA_loop ex_env ex_heapM 0 7 ''Q'' (Suc 0) ?a1 =
      (Ok ([Some 0, Some 1] ! nat (cursor ?a1 0)), n1)"
    by blast
  moreover have c1: "cursor ?a1 0 = 1" by (simp add: spec_defs ex_defs)
  ultimately have a: "fst (getDeviceFromNUMA_loop ex_env ex_heapM 0 7 ''Q'' (Suc 0) ?a1) = Ok (Some 1)"
    by auto
  from t2 h2 have "\<exists>n1. kept ex_env ?a n1 \<and>
      cursor n1 0 = (cursor ?a 0 + 1) mod int (length [Some 0, Some (1::nat)]) \<and>
      getDeviceFromNUMA_loop ex_env ex_heapM 0 7 ''Q'' 0 ?a =
      getDeviceFromNUMA_loop ex_env ex_heapM 0 7 ''Q'' (Suc 0) n1"
    by blast
  moreover have c0: "cursor ?a 0 = 0" by (simp add: spec_defs ex_defs)
  ultimately have b: "\<exists>n1. cursor n1 0 = 1 \<and>
      getDeviceFromNUMA_loop ex_env ex_heapM 0 7 ''Q'' 0 ?a =
      getDeviceFromNUMA_loop ex_env ex_heapM 0 7 ''Q'' (Suc 0) n1"
    by auto
  from t3 h3 have "\<exists>n'. GetDevice ex_env ex_heapM (Some ?a) (Some ?ps) =
      (Ok (Some (length ex_heapM)), ex_heapM @ [?ib], Some n')"
    by blast
  then have c: "fst (GetDevice ex_env ex_heapM (Some ?a) (Some ?ps)) = Ok (Some 2)"
    "fst (snd (GetDevice ex_env ex_heapM (Some ?a) (Some ?ps))) = ex_heapM @ [?ib]"
    by (auto simp: ex_heapM_def)
  from t4 h4 have "\<exists>n'. GetDevice ex_env ex_heapM (Some ?b) (Some ?ps) =
      (Ok (Some (length ex_heapM)), ex_heapM @ [?ib], Some n')"
    by blast
  then have d: "fst (GetDevice ex_env ex_heapM (Some ?b) (Some ?ps)) = Ok (Some 2)"
    "fst (snd (GetDevice ex_env ex_heapM (Some ?b) (Some ?ps))) = ex_heapM @ [?ib]"
    by (auto simp: ex_heapM_def)
  let ?c = "ex_fabric [(0, [Some 0])]"
  let ?pa = "ex_params 0 7 ''anyProvider''"
  have sc: "scan_order ?c 0 = [Some 0, Some 0]"
    by (simp add: scan_order_def spec_defs ex_defs)
  have h5: "well_formed ex_env ex_heap5 ?c \<and> Provider ?pa \<noteq> [] \<and>
    scan_order ?c (NUMANode ?pa) = [] @ Some 0 # [Some 0] \<and>
    (\<forall>q\<in>set []. \<not> eligible_at ex_env ex_heap5 ?c (DevClass ?pa) (Provider ?pa) q) \<and>
    deref ex_heap5 (Some 0) = Some ?ib \<and> NetDevClass ?ib = FabricDevClassManual \<and>
    \<not> ShouldIgnore (ifaceFilter ?c) (Name ?ib) \<and> live ex_env ?c (Name ?ib)"
    using sc by (simp add: spec_defs ex_defs ex_heap5_def)
  note t5 = manual_bypass [where n = ?c and heap = ex_heap5 and env = ex_env and ps = ?pa
      and pre = "[]" and p = "Some 0" and post = "[Some 0]" and w = ?ib]
  from t5 h5 have "\<exists>n'. GetDevice ex_env ex_heap5 (Some ?c) (Some ?pa) =
      (Ok (Some (length ex_heap5)), ex_heap5 @ [?ib], Some n')"
    by blast
  then have e: "fst (GetDevice ex_env ex_heap5 (Some ?c) (Some ?pa)) = Ok (Some 1)"
    "fst (snd (GetDevice ex_env ex_heap5 (Some ?c) (Some ?pa))) = [?ib, ?ib]"
    by (auto simp: ex_heap5_def)
  from a b sa c sb d e show ?thesis by simp
qed

lemma hw_write_deref: "hw_write hws p h = Inr hws' \<Longrightarrow> hw_deref hws' p = Some h"
  by (auto simp: hw_write_def hw_deref_def split: option.splits if_splits)

lemma write_through_shared:
  assumes "deref heap' r = Some v" and "write_through_hw heap' hws r h = Inr hws'"
  shows "hw_deref hws' (hw v) = Some h"
    "HasProvider (hw_env supports byName hws') v provider = supports (Some h) provider"
proof -
  from assms have "hw_write hws (hw v) h = Inr hws'" by (simp add: write_through_hw_def)
  then show a: "hw_deref hws' (hw v) = Some h" by (rule hw_write_deref)
  then show "HasProvider (hw_env supports byName hws') v provider = supports (Some h) provider"
    by (simp add: HasProvider_def hw_env_def)
qed

lemma Find_copies:
  assumes valid: "\<forall>p\<in>set (inventory n). deref heap p \<noteq> None"
    and f: "Find heap (Some n) name = (Ok rs, heap1)"
  shows "map (deref heap1) rs = map Some (filter (\<lambda>v. Name v = name) (vals heap (inventory n)))"
    "r \<in> set rs \<Longrightarrow> \<exists>p\<in>set (inventory n). \<exists>v. deref heap p = Some v \<and> deref heap1 r = Some v"
    "r \<in> set rs \<Longrightarrow> deref heap q \<noteq> None \<Longrightarrow> deref (store_write heap1 r w) q = deref heap q"
proof -
  let ?ws = "filter (\<lambda>v. Name v = name) (vals heap (inventory n))"
  from valid f Find_spec [of n heap name] have e: "rs = map Some [length heap..<length heap + length ?ws]"
    "heap1 = heap @ ?ws" by (auto split: if_splits)
  show m: "map (deref heap1) rs = map Some ?ws" unfolding e by (rule deref_fresh)
  show "deref (store_write heap1 r w) q = deref heap q" if "r \<in> set rs" "deref heap q \<noteq> None"
    using that unfolding e by (auto simp: store_write_fresh)
  show "\<exists>p\<in>set (inventory n). \<exists>v. deref heap p = Some v \<and> deref heap1 r = Some v" if "r \<in> set rs"
  proof -
    from that have "deref heap1 r \<in> set (map (deref heap1) rs)" by simp
    then have "deref heap1 r \<in> Some ` set ?ws" unfolding m by simp
    then obtain v where v: "deref heap1 r = Some v" "v \<in> set (vals heap (inventory n))" by auto
    then obtain p where p: "p \<in> set (inventory n)" "v = the (deref heap p)"
      by (auto simp: vals_def)
    with valid have "deref heap p = Some v" by auto
    with p(1) v(1) show ?thesis by blast
  qed
qed

lemma FindDevice_copies:
  assumes valid: "\<forall>p\<in>set (inventory n). deref heap p \<noteq> None"
    and fd: "FindDevice env heap (Some n) (Some ps) = (Ok rs', heap2)"
    and r: "r \<in> set rs'"
  shows "\<exists>p\<in>set (inventory n). \<exists>v. deref heap p = Some v \<and> deref heap2 r = Some v"
    "deref heap q \<noteq> None \<Longrightarrow> deref (store_write heap2 r w) q = deref heap q"
proof -
  define named where "named = filter (\<lambda>v. Name v = Interface ps) (vals heap (inventory n))"
  define byDomain where "byDomain =
       (if ReqDomain ps = [] then named
        else filter (\<lambda>v. Domain v = ReqDomain ps \<or> (Domain v = [] \<and> Name v = ReqDomain ps)) named)"
  define byProvider where "byProvider =
       (if Provider ps = [] then byDomain
        else filter (\<lambda>v. HasProvider env v (Provider ps) \<or> NetDevClass v = FabricDevClassManual)
               byDomain)"
  from FindDevice_spec [OF valid named_def byDomain_def byProvider_def] obtain ptrs where
    s: "set ptrs \<subseteq> set (map Some [length heap..<length heap + length named])"
    and f0: "FindDevice env heap (Some n) (Some ps) =
       (if named = [] then (Err (ErrInterfaceNotFound (Interface ps)), heap)
        else if byDomain = []
          then (Err (ErrNoRequestedDomain (Interface ps) (ReqDomain ps)), heap @ named)
        else if byProvider = []
          then (Err (ErrNoProviderSupport (Interface ps) (Provider ps)), heap @ named)
        else (Ok ptrs, heap @ named))"
    by blast
  have f: "(Ok rs', heap2) =
       (if named = [] then (Err (ErrInterfaceNotFound (Interface ps)), heap)
        else if byDomain = []
          then (Err (ErrNoRequestedDomain (Interface ps) (ReqDomain ps)), heap @ named)
        else if byProvider = []
          then (Err (ErrNoProviderSupport (Interface ps) (Provider ps)), heap @ named)
        else (Ok ptrs, heap @ named))"
    using f0 unfolding fd .
  from f have e: "rs' = ptrs" "heap2 = heap @ named" by (auto split: if_splits)
  from r e s have "r \<in> Some ` {length heap..<length heap + length named}" by auto
  then obtain a where a: "r = Some a" "length heap \<le> a" "a < length heap + length named"
    by auto
  define i where "i = a - length heap"
  have i: "r = Some (length heap + i)" "i < length named" using a by (simp_all add: i_def)
  then have d: "deref heap2 r = Some (named ! i)" using e by (simp add: deref_def nth_append)
  have "named ! i \<in> set (vals heap (inventory n))"
  proof -
    have "named ! i \<in> set named" using i(2) by (rule nth_mem)
    then show ?thesis by (simp add: named_def)
  qed
  then obtain p where p: "p \<in> set (inventory n)" "named ! i = the (deref heap p)"
    by (auto simp: vals_def)
  with valid have "deref heap p = Some (named ! i)" by auto
  with p(1) d show "\<exists>p\<in>set (inventory n). \<exists>v. deref heap p = Some v \<and> deref heap2 r = Some v"
    by blast
  show "deref heap q \<noteq> None \<Longrightarrow> deref (store_write heap2 r w) q = deref heap q"
    using i(1) e by (simp add: store_write_fresh)
qed

lemma GetDevice_copies:
  assumes g: "GetDevice env heap (Some n) (Some ps) = (Ok r, heap', n')"
  shows "\<exists>p\<in>set (inventory n). \<exists>v. deref heap p = Some v \<and> deref heap' r = Some v"
    "deref heap q \<noteq> None \<Longrightarrow> deref (store_write heap' r w) q = deref heap q"
proof -
  from GetDevice_Ok_inventory [OF g] obtain p v where p: "p \<in> set (inventory n)"
    "deref heap p = Some v" "r = Some (length heap)" "heap' = heap @ [v]" by blast
  have "deref heap' r = Some v" using p by (simp add: deref_def)
  with p show "\<exists>p\<in>set (inventory n). \<exists>v. deref heap p = Some v \<and> deref heap' r = Some v"
    by blast
  show "deref heap q \<noteq> None \<Longrightarrow> deref (store_write heap' r w) q = deref heap q"
    using p(3,4) by (simp add: store_write_fresh)
qed

subsection \<open>C7: the returned entities are copies\<close>

text \<open>
  C7, as amended. \<open>GetDevice\<close>, \<open>Find\<close> and \<open>FindDevice\<close> return pointers to objects they
  have just allocated, each a copy, field by field, of an entity of the inventory. An
  assignment to the object a returned pointer leads to leaves every object that was in the
  store before the call, and so every entity of the inventory lists, as it was. The copy is
  shallow: it holds the same \<open>hw\<close> pointer as the entity, so that what a caller writes
  through the \<open>hw\<close> pointer of the copy is the descriptor of the entity from then on, and is
  what \<open>HasProvider\<close> answers from for the entity.
\<close>

theorem returned_entities_are_copies:
  "(GetDevice env heap (Some n) (Some ps) = (Ok r, heap', n') \<longrightarrow>
      (\<exists>p\<in>set (inventory n). \<exists>v. deref heap p = Some v \<and> deref heap' r = Some v \<and>
         (write_through_hw heap' hws r h = Inr hws' \<longrightarrow>
            hw_deref hws' (hw v) = Some h \<and>
            HasProvider (hw_env supports byName hws') v provider = supports (Some h) provider)) \<and>
      (\<forall>q w. deref heap q \<noteq> None \<longrightarrow> deref (store_write heap' r w) q = deref heap q)) \<and>
   ((\<forall>p\<in>set (inventory n). deref heap p \<noteq> None) \<and> Find heap (Some n) name = (Ok rs, heap1) \<longrightarrow>
      map (deref heap1) rs = map Some (filter (\<lambda>v. Name v = name) (vals heap (inventory n))) \<and>
      (\<forall>r\<in>set rs.
         (\<exists>p\<in>set (inventory n). \<exists>v. deref heap p = Some v \<and> deref heap1 r = Some v \<and>
            (write_through_hw heap1 hws r h = Inr hws' \<longrightarrow>
               hw_deref hws' (hw v) = Some h \<and>
               HasProvider (hw_env supports byName hws') v provider = supports (Some h) provider)) \<and>
         (\<forall>q w. deref heap q \<noteq> None \<longrightarrow> deref (store_write heap1 r w) q = deref heap q))) \<and>
   ((\<forall>p\<in>set (inventory n). deref heap p \<noteq> None) \<and>
    FindDevice env heap (Some n) (Some ps) = (Ok rs', heap2) \<longrightarrow>
      (\<forall>r\<in>set rs'.
         (\<exists>p\<in>set (inventory n). \<exists>v. deref heap p = Some v \<and> deref heap2 r = Some v \<and>
            (write_through_hw heap2 hws r h = Inr hws' \<longrightarrow>
               hw_deref hws' (hw v) = Some h \<and>
               HasProvider (hw_env supports byName hws') v provider = supports (Some h) provider)) \<and>
         (\<forall>q w. deref heap q \<noteq> None \<longrightarrow> deref (store_write heap2 r w) q = deref heap q)))"
proof (intro conjI impI ballI allI)
  assume g: "GetDevice env heap (Some n) (Some ps) = (Ok r, heap', n')"
  from GetDevice_copies(1) [OF g] obtain p v where
    p: "p \<in> set (inventory n)" "deref heap p = Some v" "deref heap' r = Some v" by blast
  have sh: "hw_deref hws' (hw v) = Some h \<and>
      HasProvider (hw_env supports byName hws') v provider = supports (Some h) provider"
    if wt: "write_through_hw heap' hws r h = Inr hws'"
    using write_through_shared(1) [OF p(3) wt] by (simp add: HasProvider_def hw_env_def)
  from p sh show "\<exists>p\<in>set (inventory n). \<exists>v. deref heap p = Some v \<and> deref heap' r = Some v \<and>
         (write_through_hw heap' hws r h = Inr hws' \<longrightarrow>
            hw_deref hws' (hw v) = Some h \<and>
            HasProvider (hw_env supports byName hws') v provider = supports (Some h) provider)"
    by blast
next
  fix q w
  assume "GetDevice env heap (Some n) (Some ps) = (Ok r, heap', n')" "deref heap q \<noteq> None"
  then show "deref (store_write heap' r w) q = deref heap q" by (rule GetDevice_copies(2))
next
  assume a: "(\<forall>p\<in>set (inventory n). deref heap p \<noteq> None) \<and> Find heap (Some n) name = (Ok rs, heap1)"
  then show "map (deref heap1) rs = map Some (filter (\<lambda>v. Name v = name) (vals heap (inventory n)))"
    using Find_copies(1) by blast
next
  fix r
  assume a: "(\<forall>p\<in>set (inventory n). deref heap p \<noteq> None) \<and> Find heap (Some n) name = (Ok rs, heap1)"
    and r: "r \<in> set rs"
  from a have valid: "\<forall>p\<in>set (inventory n). deref heap p \<noteq> None"
    and f: "Find heap (Some n) name = (Ok rs, heap1)" by simp_all
  from Find_copies(2) [OF valid f r] obtain p v where
    p: "p \<in> set (inventory n)" "deref heap p = Some v" "deref heap1 r = Some v" by blast
  have sh: "hw_deref hws' (hw v) = Some h \<and>
      HasProvider (hw_env supports byName hws') v provider = supports (Some h) provider"
    if wt: "write_through_hw heap1 hws r h = Inr hws'"
    using write_through_shared(1) [OF p(3) wt] by (simp add: HasProvider_def hw_env_def)
  from p sh show "\<exists>p\<in>set (inventory n). \<exists>v. deref heap p = Some v \<and> deref heap1 r = Some v \<and>
         (write_through_hw heap1 hws r h = Inr hws' \<longrightarrow>
            hw_deref hws' (hw v) = Some h \<and>
            HasProvider (hw_env supports byName hws') v provider = supports (Some h) provider)"
    by blast
next
  fix r q w
  assume a: "(\<forall>p\<in>set (inventory n). deref heap p \<noteq> None) \<and> Find heap (Some n) name = (Ok rs, heap1)"
    and r: "r \<in> set rs" and q: "deref heap q \<noteq> None"
  from a have valid: "\<forall>p\<in>set (inventory n). deref heap p \<noteq> None"
    and f: "Find heap (Some n) name = (Ok rs, heap1)" by simp_all
  from Find_copies(3) [OF valid f r q] show "deref (store_write heap1 r w) q = deref heap q" .
next
  fix r
  assume a: "(\<forall>p\<in>set (inventory n). deref heap p \<noteq> None) \<and>
    FindDevice env heap (Some n) (Some ps) = (Ok rs', heap2)" and r: "r \<in> set rs'"
  from a have valid: "\<forall>p\<in>set (inventory n). deref heap p \<noteq> None"
    and f: "FindDevice env heap (Some n) (Some ps) = (Ok rs', heap2)" by simp_all
  from FindDevice_copies(1) [OF valid f r] obtain p v where
    p: "p \<in> set (inventory n)" "deref heap p = Some v" "deref heap2 r = Some v" by blast
  have sh: "hw_deref hws' (hw v) = Some h \<and>
      HasProvider (hw_env supports byName hws') v provider = supports (Some h) provider"
    if wt: "write_through_hw heap2 hws r h = Inr hws'"
    using write_through_shared(1) [OF p(3) wt] by (simp add: HasProvider_def hw_env_def)
  from p sh show "\<exists>p\<in>set (inventory n). \<exists>v. deref heap p = Some v \<and> deref heap2 r = Some v \<and>
         (write_through_hw heap2 hws r h = Inr hws' \<longrightarrow>
            hw_deref hws' (hw v) = Some h \<and>
            HasProvider (hw_env supports byName hws') v provider = supports (Some h) provider)"
    by blast
next
  fix r q w
  assume a: "(\<forall>p\<in>set (inventory n). deref heap p \<noteq> None) \<and>
    FindDevice env heap (Some n) (Some ps) = (Ok rs', heap2)" and r: "r \<in> set rs'"
    and q: "deref heap q \<noteq> None"
  from a have valid: "\<forall>p\<in>set (inventory n). deref heap p \<noteq> None"
    and f: "FindDevice env heap (Some n) (Some ps) = (Ok rs', heap2)" by simp_all
  from FindDevice_copies(2) [OF valid f r q] show "deref (store_write heap2 r w) q = deref heap q" .
qed

theorem returned_entities_are_copies_witness:
  "fst (GetDevice (ex_hw_env ex_hws) ex_heapH (Some ex_fabricH) (Some (ex_params 0 1 ''P'')))
     = Ok (Some 2) \<and>
   deref (store_write (fst (snd (GetDevice (ex_hw_env ex_hws) ex_heapH (Some ex_fabricH)
      (Some (ex_params 0 1 ''P''))))) (Some 2) (ex_devH ''Z'' 9 None)) (Some 0)
     = Some (ex_devH ''A'' 1 (Some 0)) \<and>
   write_through_hw (fst (snd (GetDevice (ex_hw_env ex_hws) ex_heapH (Some ex_fabricH)
      (Some (ex_params 0 1 ''P''))))) ex_hws (Some 2) [] = Inr [[], [''P'', ''Q'']] \<and>
   hw_deref [[], [''P'', ''Q'']] (hw (ex_devH ''A'' 1 (Some 0))) = Some [] \<and>
   fst (Find ex_heapH (Some ex_fabricH) ''B'') = Ok [Some 2] \<and>
   deref (store_write (snd (Find ex_heapH (Some ex_fabricH) ''B'')) (Some 2)
      (ex_devH ''Z'' 9 None)) (Some 1) = Some (ex_devH ''B'' 1 (Some 1)) \<and>
   write_through_hw (snd (Find ex_heapH (Some ex_fabricH) ''B'')) ex_hws (Some 2) []
     = Inr [[''P''], []] \<and>
   hw_deref [[''P''], []] (hw (ex_devH ''B'' 1 (Some 1))) = Some [] \<and>
   fst (FindDevice (ex_hw_env ex_hws) ex_heapH (Some ex_fabricH) (Some (ex_find ''B'' [] ''Q'')))
     = Ok [Some 2] \<and>
   deref (store_write (snd (FindDevice (ex_hw_env ex_hws) ex_heapH (Some ex_fabricH)
      (Some (ex_find ''B'' [] ''Q'')))) (Some 2) (ex_devH ''Z'' 9 None)) (Some 1)
     = Some (ex_devH ''B'' 1 (Some 1)) \<and>
   write_through_hw (snd (FindDevice (ex_hw_env ex_hws) ex_heapH (Some ex_fabricH)
      (Some (ex_find ''B'' [] ''Q'')))) ex_hws (Some 2) [] = Inr [[''P''], []] \<and>
   \<not> HasProvider (ex_hw_env [[''P''], []]) (ex_devH ''B'' 1 (Some 1)) ''Q''"
proof -
  let ?e = "ex_hw_env ex_hws"
  let ?G = "GetDevice ?e ex_heapH (Some ex_fabricH) (Some (ex_params 0 1 ''P''))"
  let ?F = "Find ex_heapH (Some ex_fabricH) ''B''"
  let ?D = "FindDevice ?e ex_heapH (Some ex_fabricH) (Some (ex_find ''B'' [] ''Q''))"
  let ?Z = "ex_devH ''Z'' 9 None"
  let ?A = "ex_devH ''A'' 1 (Some 0)"
  let ?B = "ex_devH ''B'' 1 (Some 1)"
  have g: "?G = (Ok (Some 2), fst (snd ?G), snd (snd ?G))"
    by (simp add: eval_defs ex_defs hw_defs)
  have valid: "\<forall>p\<in>set (inventory ex_fabricH). deref ex_heapH p \<noteq> None"
    by (simp add: inventory_def ex_defs hw_defs deref_def)
  have f: "?F = (Ok [Some 2], snd ?F)"
    by (simp add: find_defs ex_defs hw_defs deref_def)
  have d: "?D = (Ok [Some 2], snd ?D)"
    by (simp add: find_defs ex_defs hw_defs deref_def HasProvider_def FabricDevClassManual_def)
  have old: "deref ex_heapH (Some 0) = Some ?A" "deref ex_heapH (Some 1) = Some ?B"
    by (simp_all add: hw_defs deref_def)
  have new: "deref (fst (snd ?G)) (Some 2) = Some ?A" "deref (snd ?F) (Some 2) = Some ?B"
    "deref (snd ?D) (Some 2) = Some ?B"
    by (simp_all add: eval_defs find_defs ex_defs hw_defs HasProvider_def FabricDevClassManual_def)
  have wg: "write_through_hw (fst (snd ?G)) ex_hws (Some 2) [] = Inr [[], [''P'', ''Q'']]"
    using new(1) by (simp add: write_through_hw_def hw_write_def ex_hws_def ex_devH_def)
  have wf: "write_through_hw (snd ?F) ex_hws (Some 2) [] = Inr [[''P''], []]"
    using new(2) by (simp add: write_through_hw_def hw_write_def ex_hws_def ex_devH_def)
  have wd: "write_through_hw (snd ?D) ex_hws (Some 2) [] = Inr [[''P''], []]"
    using new(3) by (simp add: write_through_hw_def hw_write_def ex_hws_def ex_devH_def)
  note t1 = returned_entities_are_copies [where env = ?e and heap = ex_heapH and n = ex_fabricH
      and ps = "ex_params 0 1 ''P''" and r = "Some 2" and heap' = "fst (snd ?G)"
      and n' = "snd (snd ?G)" and hws = ex_hws and h = "[]" and hws' = "[[], [''P'', ''Q'']]",
      THEN conjunct1]
  note t2 = returned_entities_are_copies [where heap = ex_heapH and n = ex_fabricH
      and name = "''B''" and rs = "[Some 2]" and ?heap1.0 = "snd ?F"
      and hws = ex_hws and h = "[]" and hws' = "[[''P''], []]",
      THEN conjunct2, THEN conjunct1]
  note t3 = returned_entities_are_copies [where env = ?e and heap = ex_heapH and n = ex_fabricH
      and ps = "ex_find ''B'' [] ''Q''" and rs' = "[Some 2]" and ?heap2.0 = "snd ?D"
      and hws = ex_hws and h = "[]" and hws' = "[[''P''], []]"
      and supports = ex_supports and byName = "InterfaceByName ex_env" and provider = "''Q''",
      THEN conjunct2, THEN conjunct2]
  from t1 g old(1) have a: "deref (store_write (fst (snd ?G)) (Some 2) ?Z) (Some 0) = Some ?A"
    by simp
  from t1 g new(1) wg have a': "hw_deref [[], [''P'', ''Q'']] (hw ?A) = Some []" by auto
  from t2 valid f old(2) have b: "deref (store_write (snd ?F) (Some 2) ?Z) (Some 1) = Some ?B"
    by simp
  from t2 valid f new(2) wf have b': "hw_deref [[''P''], []] (hw ?B) = Some []" by auto
  from t3 valid d old(2) have c: "deref (store_write (snd ?D) (Some 2) ?Z) (Some 1) = Some ?B"
    by simp
  from t3 valid d new(3) wd
  have "HasProvider (hw_env ex_supports (InterfaceByName ex_env) [[''P''], []]) ?B ''Q'' =
      ex_supports (Some []) ''Q''" by auto
  then have c': "\<not> HasProvider (ex_hw_env [[''P''], []]) ?B ''Q''"
    by (simp add: ex_hw_env_def ex_supports_def)
  have r: "fst ?G = Ok (Some 2)" "fst ?F = Ok [Some 2]" "fst ?D = Ok [Some 2]"
    by (subst g, simp) (subst f, simp, subst d, simp)
  from a a' b b' c c' wg wf wd r show ?thesis by simp
qed

text \<open>
  C7 as first stated has the caller unable to change, through a returned entity, what the
  engine holds. The entity \<open>A\<close> supports the provider \<open>P\<close>; a caller that got a copy of it
  from \<open>GetDevice\<close> and empties the descriptor behind the \<open>hw\<close> pointer of the copy has
  emptied the descriptor of the entity: the struct of the entity is as it was, yet the engine
  no longer finds a device for the request it has just answered.
\<close>

theorem returned_entities_are_copies_counterexample:
  "fst (GetDevice (ex_hw_env ex_hws) ex_heapH (Some (ex_fabric [(0, [Some 0])]))
      (Some (ex_params 0 1 ''P''))) = Ok (Some 2) \<and>
   write_through_hw (fst (snd (GetDevice (ex_hw_env ex_hws) ex_heapH
      (Some (ex_fabric [(0, [Some 0])])) (Some (ex_params 0 1 ''P''))))) ex_hws (Some 2) []
     = Inr [[], [''P'', ''Q'']] \<and>
   deref (fst (snd (GetDevice (ex_hw_env ex_hws) ex_heapH
      (Some (ex_fabric [(0, [Some 0])])) (Some (ex_params 0 1 ''P''))))) (Some 0)
     = Some (ex_devH ''A'' 1 (Some 0)) \<and>
   HasProvider (ex_hw_env ex_hws) (ex_devH ''A'' 1 (Some 0)) ''P'' \<and>
   \<not> HasProvider (ex_hw_env [[], [''P'', ''Q'']]) (ex_devH ''A'' 1 (Some 0)) ''P'' \<and>
   fst (GetDevice (ex_hw_env ex_hws)
      (fst (snd (GetDevice (ex_hw_env ex_hws) ex_heapH
         (Some (ex_fabric [(0, [Some 0])])) (Some (ex_params 0 1 ''P'')))))
      (snd (snd (GetDevice (ex_hw_env ex_hws) ex_heapH
         (Some (ex_fabric [(0, [Some 0])])) (Some (ex_params 0 1 ''P'')))))
      (Some (ex_params 0 1 ''P''))) = Ok (Some 3) \<and>
   fst (GetDevice (ex_hw_env [[], [''P'', ''Q'']])
      (fst (snd (GetDevice (ex_hw_env ex_hws) ex_heapH
         (Some (ex_fabric [(0, [Some 0])])) (Some (ex_params 0 1 ''P'')))))
      (snd (snd (GetDevice (ex_hw_env ex_hws) ex_heapH
         (Some (ex_fabric [(0, [Some 0])])) (Some (ex_params 0 1 ''P'')))))
      (Some (ex_params 0 1 ''P''))) = Err (FabricNotFoundErr 1)"
  by (simp add: eval_defs ex_defs hw_defs)

subsection \<open>C9: conflicting filter modes\<close>

text \<open>
  C9. Validating a configuration whose exclude set and include set are both non-empty
  returns an error, whatever the other fields are: no mode is picked silently. When at most
  one of the two sets is non-empty, the check of the two sets does not fire: the error
  "cannot specify both" is not returned, and a configuration that passes the checks of the
  system name and of the telemetry fields is accepted.
\<close>

theorem Validate_exclude_include:
  "(nonempty (ExcludeFabricIfaces c) \<and> nonempty (IncludeFabricIfaces c)
      \<longrightarrow> Validate v (Some c) \<noteq> None) \<and>
   (\<not> (nonempty (ExcludeFabricIfaces c) \<and> nonempty (IncludeFabricIfaces c))
      \<longrightarrow> Validate v (Some c) \<noteq> Some ErrBothExcludeInclude) \<and>
   (v (SystemName c) \<and> \<not> (TelemetryRetain c > 0 \<and> TelemetryPort c = 0)
      \<and> \<not> (TelemetryEnabled c \<and> TelemetryPort c = 0)
      \<longrightarrow> Validate v (Some c) =
            (if nonempty (ExcludeFabricIfaces c) \<and> nonempty (IncludeFabricIfaces c)
             then Some ErrBothExcludeInclude else None))"
  by (simp add: Validate_def StringSet_len_pos)

theorem Validate_exclude_include_witness:
  "Validate (\<lambda>s. s \<noteq> [])
      (Some \<lparr>SystemName = ''daos_server'', TelemetryPort = 0, TelemetryEnabled = False,
             TelemetryRetain = 0, ExcludeFabricIfaces = Some {|''eth0''|},
             IncludeFabricIfaces = Some {|''ib0''|}\<rparr>) = Some ErrBothExcludeInclude \<and>
   Validate (\<lambda>s. s \<noteq> [])
      (Some \<lparr>SystemName = ''daos_server'', TelemetryPort = 0, TelemetryEnabled = False,
             TelemetryRetain = 0, ExcludeFabricIfaces = Some {|''eth0''|},
             IncludeFabricIfaces = None\<rparr>) = None \<and>
   Validate (\<lambda>s. s \<noteq> [])
      (Some \<lparr>SystemName = ''daos_server'', TelemetryPort = 0, TelemetryEnabled = False,
             TelemetryRetain = 0, ExcludeFabricIfaces = Some {||},
             IncludeFabricIfaces = Some {|''ib0''|}\<rparr>) = None"
  using
    Validate_exclude_include [of
      "\<lparr>SystemName = ''daos_server'', TelemetryPort = 0, TelemetryEnabled = False,
        TelemetryRetain = 0, ExcludeFabricIfaces = Some {|''eth0''|},
        IncludeFabricIfaces = Some {|''ib0''|}\<rparr>" "\<lambda>s. s \<noteq> []"]
    Validate_exclude_include [of
      "\<lparr>SystemName = ''daos_server'', TelemetryPort = 0, TelemetryEnabled = False,
        TelemetryRetain = 0, ExcludeFabricIfaces = Some {|''eth0''|},
        IncludeFabricIfaces = None\<rparr>" "\<lambda>s. s \<noteq> []"]
    Validate_exclude_include [of
      "\<lparr>SystemName = ''daos_server'', TelemetryPort = 0, TelemetryEnabled = False,
        TelemetryRetain = 0, ExcludeFabricIfaces = Some {||},
        IncludeFabricIfaces = Some {|''ib0''|}\<rparr>" "\<lambda>s. s \<noteq> []"]
  by (simp add: nonempty_def)

end
